theory Spec2Isabelle
  imports Main "HOL-Library.Sublist" "HOL-Library.Word"
begin

text \<open>
  The path module of the Aragon client: \<open>parsePath\<close> turns the pathname and the search
  string of a URL into a locator, \<open>getAppPath\<close> builds the path of an app instance,
  and \<open>parsePreferences\<close> reads the preferences out of a search string. The built-ins
  of the language the module calls are modelled first, then the module itself; the
  properties follow.
\<close>

section \<open>JavaScript strings\<close>

text \<open>
  A JavaScript string is a finite sequence of 16-bit code units. String literals of the
  source are ASCII; \<open>js\<close> embeds them.
\<close>

type_synonym jschar = "16 word"
type_synonym jsstring = "jschar list"

definition js :: "string \<Rightarrow> jsstring" where
  "js s = map of_char s"

subsection \<open>The string methods the module calls\<close>

text \<open>\<open>s.indexOf(sub)\<close>: the first index where \<open>sub\<close> occurs in \<open>s\<close>, or \<open>-1\<close>.\<close>

fun indexOf :: "'a list \<Rightarrow> 'a list \<Rightarrow> int" where
  "indexOf [] sub = (if sub = [] then 0 else - 1)"
| "indexOf (c # cs) sub =
     (if prefix sub (c # cs) then 0
      else (let k = indexOf cs sub in if k < 0 then - 1 else k + 1))"

text \<open>
  \<open>s.substr(start, len)\<close>: a negative \<open>start\<close> counts from the end, and both are
  clamped to the string.
\<close>

definition substr :: "'a list \<Rightarrow> int \<Rightarrow> int \<Rightarrow> 'a list" where
  "substr s start len =
     (let size = int (length s);
          st = (if start < 0 then max (size + start) 0 else min start size);
          n = min (max len 0) (size - st)
      in take (nat n) (drop (nat st) s))"

definition endsWith :: "'a list \<Rightarrow> 'a list \<Rightarrow> bool" where
  "endsWith s sub = suffix sub s"

text \<open>
  \<open>s.replace(pat, rep)\<close> with a string pattern replaces the first occurrence only.
  (The replacement strings of the module contain no \<open>$\<close> pattern.)
\<close>

definition replace :: "'a list \<Rightarrow> 'a list \<Rightarrow> 'a list \<Rightarrow> 'a list" where
  "replace s pat rep =
     (let pos = indexOf s pat
      in if pos < 0 then s
         else take (nat pos) s @ rep @ drop (nat pos + length pat) s)"

text \<open>
  \<open>s.split(sep)\<close> with a string separator: the pieces between the successive
  non-overlapping occurrences of \<open>sep\<close>, found from left to right. The result of
  splitting with a non-empty separator always has at least one element; the empty
  separator splits into single code units.
\<close>

function split_from :: "'a list \<Rightarrow> 'a list \<Rightarrow> 'a list list" where
  "split_from sep [] = [[]]"
| "split_from sep (c # cs) =
     (if sep \<noteq> [] \<and> prefix sep (c # cs)
      then [] # split_from sep (drop (length sep) (c # cs))
      else (case split_from sep cs of
              [] \<Rightarrow> [[c]]
            | x # xs \<Rightarrow> (c # x) # xs))"
  by pat_completeness auto
termination
  by (relation "measure (\<lambda>(sep, s). length s)") auto

definition split :: "'a list \<Rightarrow> 'a list \<Rightarrow> 'a list list" where
  "split s sep = (if sep = [] then map (\<lambda>c. [c]) s else split_from sep s)"

text \<open>Array indexing \<open>xs[i]\<close>: \<open>undefined\<close> (here \<open>None\<close>) out of range.\<close>

definition at :: "'a list \<Rightarrow> nat \<Rightarrow> 'a option" where
  "at xs i = (if i < length xs then Some (xs ! i) else None)"

subsection \<open>Percent-encoding: \<open>encodeURIComponent\<close> and \<open>decodeURIComponent\<close>\<close>

text \<open>
  Both are built-ins of the language, defined by the Encode and Decode operations of the
  ECMAScript specification. Either can raise \<open>URIError\<close>: \<open>Encode\<close> and \<open>Decode\<close>
  return \<open>None\<close> then. Octets and code points are natural numbers.
\<close>

datatype error = TypeError | URIError

definition hexDigit :: "nat \<Rightarrow> jschar" where
  "hexDigit n = (if n < 10 then of_nat (48 + n) else of_nat (55 + n))"

definition hexValue :: "jschar \<Rightarrow> nat option" where
  "hexValue c =
     (if 0x30 \<le> c \<and> c \<le> 0x39 then Some (unat c - 48)
      else if 0x41 \<le> c \<and> c \<le> 0x46 then Some (unat c - 55)
      else if 0x61 \<le> c \<and> c \<le> 0x66 then Some (unat c - 87)
      else None)"

text \<open>The characters \<open>Encode\<close> leaves alone: letters, digits and \<open>-_.!~*'()\<close>.\<close>

definition uriUnescaped :: "jschar \<Rightarrow> bool" where
  "uriUnescaped c \<longleftrightarrow>
     (0x41 \<le> c \<and> c \<le> 0x5A) \<or> (0x61 \<le> c \<and> c \<le> 0x7A) \<or> (0x30 \<le> c \<and> c \<le> 0x39) \<or>
     c \<in> {0x2D, 0x5F, 0x2E, 0x21, 0x7E, 0x2A, 0x27, 0x28, 0x29}"

definition isLeadSurrogate :: "jschar \<Rightarrow> bool" where
  "isLeadSurrogate c \<longleftrightarrow> 0xD800 \<le> c \<and> c \<le> 0xDBFF"

definition isTrailSurrogate :: "jschar \<Rightarrow> bool" where
  "isTrailSurrogate c \<longleftrightarrow> 0xDC00 \<le> c \<and> c \<le> 0xDFFF"

definition surrogatePair :: "jschar \<Rightarrow> jschar \<Rightarrow> nat" where
  "surrogatePair lead trail = (unat lead - 0xD800) * 0x400 + (unat trail - 0xDC00) + 0x10000"

definition utf16Encode :: "nat \<Rightarrow> jsstring" where
  "utf16Encode cp =
     (if cp < 0x10000 then [of_nat cp]
      else [of_nat (0xD800 + (cp - 0x10000) div 0x400), of_nat (0xDC00 + (cp - 0x10000) mod 0x400)])"

definition utf8Encode :: "nat \<Rightarrow> nat list" where
  "utf8Encode cp =
     (if cp < 0x80 then [cp]
      else if cp < 0x800 then [0xC0 + cp div 64, 0x80 + cp mod 64]
      else if cp < 0x10000 then [0xE0 + cp div 4096, 0x80 + cp div 64 mod 64, 0x80 + cp mod 64]
      else [0xF0 + cp div 262144, 0x80 + cp div 4096 mod 64, 0x80 + cp div 64 mod 64,
            0x80 + cp mod 64])"

text \<open>
  The number of leading 1 bits of an octet (\<open>5\<close> stands for five or more).
\<close>

definition leadingOnes :: "nat \<Rightarrow> nat" where
  "leadingOnes b =
     (if b < 0x80 then 0 else if b < 0xC0 then 1 else if b < 0xE0 then 2
      else if b < 0xF0 then 3 else if b < 0xF8 then 4 else 5)"

text \<open>
  A valid UTF-8 encoding of a code point in two to four octets: the first octet
  announces the length, the others are continuation octets \<open>80..BF\<close>, and the code
  point has no shorter encoding, is no surrogate and is not above \<open>10FFFF\<close>.
\<close>

definition isContinuation :: "nat \<Rightarrow> bool" where
  "isContinuation b \<longleftrightarrow> 0x80 \<le> b \<and> b < 0xC0"

fun utf8Decode :: "nat list \<Rightarrow> nat option" where
  "utf8Decode [b0, b1] =
     (let cp = (b0 - 0xC0) * 64 + (b1 - 0x80)
      in if leadingOnes b0 = 2 \<and> isContinuation b1 \<and> 0x80 \<le> cp then Some cp else None)"
| "utf8Decode [b0, b1, b2] =
     (let cp = (b0 - 0xE0) * 4096 + (b1 - 0x80) * 64 + (b2 - 0x80)
      in if leadingOnes b0 = 3 \<and> isContinuation b1 \<and> isContinuation b2 \<and> 0x800 \<le> cp \<and>
            \<not> (0xD800 \<le> cp \<and> cp \<le> 0xDFFF)
         then Some cp else None)"
| "utf8Decode [b0, b1, b2, b3] =
     (let cp = (b0 - 0xF0) * 262144 + (b1 - 0x80) * 4096 + (b2 - 0x80) * 64 + (b3 - 0x80)
      in if leadingOnes b0 = 4 \<and> isContinuation b1 \<and> isContinuation b2 \<and> isContinuation b3 \<and>
            0x10000 \<le> cp \<and> cp \<le> 0x10FFFF
         then Some cp else None)"
| "utf8Decode bs = None"

definition percentEncode :: "nat list \<Rightarrow> jsstring" where
  "percentEncode octets = concat (map (\<lambda>b. [0x25, hexDigit (b div 16), hexDigit (b mod 16)]) octets)"

fun Encode :: "jsstring \<Rightarrow> jsstring option" where
  "Encode [] = Some []"
| "Encode (c # cs) =
     (if uriUnescaped c then map_option ((#) c) (Encode cs)
      else if isTrailSurrogate c then None
      else if isLeadSurrogate c then
        (case cs of
           [] \<Rightarrow> None
         | d # ds \<Rightarrow>
             if isTrailSurrogate d
             then map_option ((@) (percentEncode (utf8Encode (surrogatePair c d))))
                    (Encode ds)
             else None)
      else map_option ((@) (percentEncode (utf8Encode (unat c)))) (Encode cs))"

text \<open>An escape \<open>%XY\<close> at the head of the string: its octet and the rest of the string.\<close>

fun hexOctet :: "jsstring \<Rightarrow> (nat \<times> jsstring) option" where
  "hexOctet (p # h # l # rest) =
     (if p = 0x25 then
        (case (hexValue h, hexValue l) of
           (Some a, Some b) \<Rightarrow> Some (16 * a + b, rest)
         | _ \<Rightarrow> None)
      else None)"
| "hexOctet s = None"

fun continuationOctets :: "nat \<Rightarrow> jsstring \<Rightarrow> (nat list \<times> jsstring) option" where
  "continuationOctets 0 s = Some ([], s)"
| "continuationOctets (Suc j) s =
     (case hexOctet s of
        None \<Rightarrow> None
      | Some (b, rest) \<Rightarrow>
          (case continuationOctets j rest of
             None \<Rightarrow> None
           | Some (bs, rest') \<Rightarrow> Some (b # bs, rest')))"

lemma hexOctet_length: "hexOctet s = Some (b, rest) \<Longrightarrow> length rest < length s"
  by (cases s rule: hexOctet.cases) (auto split: if_splits option.splits)

lemma continuationOctets_length:
  "continuationOctets j s = Some (bs, rest) \<Longrightarrow> length rest \<le> length s"
proof (induction j arbitrary: s bs rest)
  case 0
  then show ?case by simp
next
  case (Suc j)
  then show ?case
    by (fastforce split: option.splits prod.splits dest: hexOctet_length)
qed

function Decode :: "jsstring \<Rightarrow> jsstring option" where
  "Decode [] = Some []"
| "Decode (c # cs) =
     (if c \<noteq> 0x25 then map_option ((#) c) (Decode cs)
      else
        (case hexOctet (c # cs) of
           None \<Rightarrow> None
         | Some (b, rest) \<Rightarrow>
             (let n = leadingOnes b in
              if n = 0 then map_option ((#) (of_nat b)) (Decode rest)
              else if n = 1 \<or> 4 < n then None
              else
                (case continuationOctets (n - 1) rest of
                   None \<Rightarrow> None
                 | Some (bs, rest') \<Rightarrow>
                     (case utf8Decode (b # bs) of
                        None \<Rightarrow> None
                      | Some cp \<Rightarrow> map_option ((@) (utf16Encode cp)) (Decode rest'))))))"
  by pat_completeness auto
termination
proof (relation "measure length", goal_cases)
  case 1
  show ?case by simp
next
  case (2 c cs)
  then show ?case by simp
next
  case (3 c cs x2 b rest n)
  then show ?case using hexOctet_length [of "c # cs" b rest] by simp
next
  case (4 c cs x2 b rest n x2a bs rest' cp)
  then show ?case
    using hexOctet_length [of "c # cs" b rest]
      continuationOctets_length [of "leadingOnes b - 1" rest bs rest'] by simp
qed

definition encodeURIComponent :: "jsstring \<Rightarrow> error + jsstring" where
  "encodeURIComponent s = (case Encode s of None \<Rightarrow> Inl URIError | Some r \<Rightarrow> Inr r)"

definition decodeURIComponent :: "jsstring \<Rightarrow> error + jsstring" where
  "decodeURIComponent s = (case Decode s of None \<Rightarrow> Inl URIError | Some r \<Rightarrow> Inr r)"

text \<open>
  The code points that have a UTF-8 encoding (the Unicode scalar values), and the
  strings without an unpaired surrogate (\<open>isWellFormed\<close> of the language): the strings
  \<open>encodeURIComponent\<close> accepts.
\<close>

definition isScalar :: "nat \<Rightarrow> bool" where
  "isScalar cp \<longleftrightarrow> cp < 0x110000 \<and> \<not> (0xD800 \<le> cp \<and> cp \<le> 0xDFFF)"

fun isWellFormed :: "jsstring \<Rightarrow> bool" where
  "isWellFormed [] = True"
| "isWellFormed (c # cs) =
     (if isLeadSurrogate c then
        (case cs of [] \<Rightarrow> False | d # ds \<Rightarrow> isTrailSurrogate d \<and> isWellFormed ds)
      else \<not> isTrailSurrogate c \<and> isWellFormed cs)"

section \<open>The locator\<close>

datatype app_mode = APP_MODE_START | APP_MODE_SETUP | APP_MODE_ORG

text \<open>
  The value \<open>parsePreferences\<close> returns: \<open>path\<close> (\<open>None\<close> is \<open>null\<close>) and the
  \<open>Map\<close> \<open>params\<close>.
\<close>

record preferences =
  pref_path :: "jsstring option"
  pref_params :: "jsstring \<rightharpoonup> jsstring"

text \<open>
  The three shapes of object \<open>parsePath\<close> returns, one for each \<open>mode\<close>. \<open>None\<close> is
  \<open>undefined\<close> for \<open>action\<close> and \<open>null\<close> for \<open>step\<close> and \<open>params\<close>.
\<close>

datatype locator =
    StartLocator (loc_path: jsstring) (loc_action: "jsstring option")
  | SetupLocator (loc_path: jsstring) (loc_step: "jsstring option") (loc_parts: "jsstring list")
  | OrgLocator (loc_path: jsstring) (loc_dao: jsstring) (loc_instanceId: jsstring)
      (loc_params: "jsstring option") (loc_parts: "jsstring list")
      (loc_preferences: preferences)

fun mode :: "locator \<Rightarrow> app_mode" where
  "mode (StartLocator _ _) = APP_MODE_START"
| "mode (SetupLocator _ _ _) = APP_MODE_SETUP"
| "mode (OrgLocator _ _ _ _ _ _) = APP_MODE_ORG"

text \<open>
  The navigation handle: the argument of a call of \<open>history.replace\<close>, and the calls
  made so far, oldest first.
\<close>

record nav_state =
  alreadyParsed :: bool

record nav_location =
  nav_pathname :: jsstring
  nav_search :: jsstring
  nav_state :: nav_state

type_synonym history = "nav_location list"

section \<open>The module\<close>

definition ARAGONID_ENS_DOMAIN :: jsstring where
  "ARAGONID_ENS_DOMAIN = js ''aragonid.eth''"

definition GLOBAL_PREFERENCES_QUERY_PARAM :: jsstring where
  "GLOBAL_PREFERENCES_QUERY_PARAM = js ''?preferences=/''"

definition GLOBAL_PREFERENCES_SHARE_LINK_QUERY_VAR :: jsstring where
  "GLOBAL_PREFERENCES_SHARE_LINK_QUERY_VAR = js ''&labels=''"

text \<open>
  \<open>parsePreferences\<close>. The empty \<open>search\<close> is falsy, and destructuring it gives
  \<open>raw\<close> its default. The defaults \<open>null\<close> of \<open>path\<close> and \<open>labels\<close> apply where the
  array has no such element.
\<close>

definition parsePreferences :: "jsstring \<Rightarrow> preferences" where
  "parsePreferences search =
     (let raw = (if search = [] then []
                 else (case at (split search GLOBAL_PREFERENCES_QUERY_PARAM) 1 of
                         None \<Rightarrow> []
                       | Some r \<Rightarrow> r));
          pieces = split raw GLOBAL_PREFERENCES_SHARE_LINK_QUERY_VAR;
          path = at pieces 0;
          labels = at pieces 1;
          params = (case labels of
                      None \<Rightarrow> Map.empty
                    | Some l \<Rightarrow>
                        if l \<noteq> [] then [GLOBAL_PREFERENCES_SHARE_LINK_QUERY_VAR \<mapsto> l]
                        else Map.empty)
      in \<lparr>pref_path = path, pref_params = params\<rparr>)"

text \<open>
  \<open>parsePath\<close>. The validators \<open>isAddress\<close> and \<open>isValidEnsName\<close> are imported from
  another module and are parameters here. The function returns the locator and the
  navigation handle after its calls of \<open>replace\<close>. A call with two arguments is the
  call with \<open>search = []\<close>.
\<close>

definition parsePath ::
  "(jsstring \<Rightarrow> bool) \<Rightarrow> (jsstring \<Rightarrow> bool) \<Rightarrow> history \<Rightarrow> jsstring \<Rightarrow> jsstring
     \<Rightarrow> locator \<times> history" where
  "parsePath isAddress isValidEnsName history pathname search =
     (let path = pathname @ search;
          parts = tl (split pathname (js ''/''))
      in case parts of
           [] \<Rightarrow> (StartLocator path None, history)
         | part0 # _ \<Rightarrow>
             if part0 = [] \<or> part0 = js ''open'' \<or> part0 = js ''create''
             then (StartLocator path (Some part0), history)
             else if part0 = js ''setup''
             then (SetupLocator path (at parts 1) (drop 2 parts), history)
             else
               (let validAddress = isAddress part0;
                    validDomain = isValidEnsName part0;
                    dao = (if \<not> validAddress \<and> \<not> validDomain
                           then part0 @ js ''.'' @ ARAGONID_ENS_DOMAIN else part0);
                    history' =
                      (if \<not> (\<not> validAddress \<and> \<not> validDomain) \<and> validDomain
                            \<and> endsWith part0 ARAGONID_ENS_DOMAIN
                       then history @
                         [\<lparr>nav_pathname = replace pathname (js ''.'' @ ARAGONID_ENS_DOMAIN) [],
                           nav_search = search,
                           nav_state = \<lparr>alreadyParsed = True\<rparr>\<rparr>]
                       else history);
                    rawParams = (if search = [] then Some [] else at (split search (js ''?p='')) 1);
                    params = (case rawParams of
                                None \<Rightarrow> None
                              | Some r \<Rightarrow>
                                  if r = [] then None
                                  else (case decodeURIComponent r of
                                          Inl err \<Rightarrow> None
                                        | Inr v \<Rightarrow> Some v));
                    instanceId = (case at parts 1 of
                                    None \<Rightarrow> js ''home''
                                  | Some i \<Rightarrow> if i = [] then js ''home'' else i)
                in (OrgLocator path dao instanceId params (drop 2 parts)
                      (parsePreferences search), history')))"

text \<open>
  \<open>getAppPath\<close>. The registry \<open>staticApps\<close> is imported from another module and is a
  parameter: it maps an instance identifier to its \<open>route\<close>. The three fields of the
  argument are \<open>None\<close> where they are \<open>undefined\<close> (or \<open>null\<close>, for \<open>params\<close>).
  Calling \<open>indexOf\<close> on an undefined \<open>dao\<close> raises \<open>TypeError\<close>.
\<close>

definition getAppPath ::
  "(jsstring \<rightharpoonup> jsstring) \<Rightarrow> jsstring option \<Rightarrow> jsstring option \<Rightarrow> jsstring option
     \<Rightarrow> error + jsstring" where
  "getAppPath staticApps fullDao' instanceId' params =
     (case fullDao' of
        None \<Rightarrow> Inl TypeError
      | Some fullDao \<Rightarrow>
          (let instanceId = (case instanceId' of None \<Rightarrow> js ''home'' | Some i \<Rightarrow> i);
               dao = (if indexOf fullDao ARAGONID_ENS_DOMAIN > - 1
                      then substr fullDao 0 (indexOf fullDao ARAGONID_ENS_DOMAIN - 1)
                      else fullDao);
               paramsPart' =
                 (case params of
                    None \<Rightarrow> Inr []
                  | Some p \<Rightarrow>
                      if p = [] then Inr []
                      else (case encodeURIComponent p of
                              Inl err \<Rightarrow> Inl err
                            | Inr enc \<Rightarrow> Inr (js ''?p='' @ enc)))
           in case paramsPart' of
                Inl err \<Rightarrow> Inl err
              | Inr paramsPart \<Rightarrow>
                  (case staticApps instanceId of
                     Some route \<Rightarrow> Inr (js ''/'' @ dao @ route @ paramsPart)
                   | None \<Rightarrow> Inr (js ''/'' @ dao @ js ''/'' @ instanceId @ paramsPart))))"

section \<open>Validators for the concrete evaluations\<close>

text \<open>
  Modelled from the spec: \<open>isAddress\<close> and \<open>isValidEnsName\<close> live in
  \<open>./web3-utils\<close>, which is not among the sources. The theorems below hold for every
  pair of validators; these two instances serve where a concrete input is evaluated. An
  address is \<open>0x\<close> and forty hexadecimal digits; a name-service name is one or more
  non-empty labels of letters, digits, \<open>_\<close> and \<open>-\<close>, each followed by a dot, and then
  \<open>eth\<close>.
\<close>

definition isWordChar :: "jschar \<Rightarrow> bool" where
  "isWordChar c \<longleftrightarrow>
     (0x41 \<le> c \<and> c \<le> 0x5A) \<or> (0x61 \<le> c \<and> c \<le> 0x7A) \<or> (0x30 \<le> c \<and> c \<le> 0x39) \<or>
     c = 0x5F \<or> c = 0x2D"

definition exampleIsAddress :: "jsstring \<Rightarrow> bool" where
  "exampleIsAddress s \<longleftrightarrow>
     length s = 42 \<and> take 2 s = js ''0x'' \<and> list_all (\<lambda>c. hexValue c \<noteq> None) (drop 2 s)"

definition exampleIsValidEnsName :: "jsstring \<Rightarrow> bool" where
  "exampleIsValidEnsName s \<longleftrightarrow>
     (let labels = split s (js ''.'')
      in 2 \<le> length labels \<and> last labels = js ''eth'' \<and>
         list_all (\<lambda>l. l \<noteq> [] \<and> list_all isWordChar l) (butlast labels))"

section \<open>Facts about \<open>split\<close>, \<open>indexOf\<close> and \<open>replace\<close>\<close>

text \<open>
  An occurrence of \<open>sub\<close> in \<open>s\<close> is \<open>sublist sub s\<close>. The language defines \<open>split\<close>
  as a loop that looks for the next occurrence with \<open>indexOf\<close>; \<open>split_from\<close>, which
  scans the string once, computes the same.
\<close>

lemma indexOf_ge: "- 1 \<le> indexOf s sub"
  by (induction s) (auto simp: Let_def)

lemma indexOf_sublist: "0 \<le> indexOf s sub \<longleftrightarrow> sublist sub s"
proof (induction s)
  case Nil
  then show ?case by simp
next
  case (Cons c cs)
  then show ?case by (auto simp: Let_def sublist_Cons_right)
qed

lemma split_from_indexOf:
  assumes "sep \<noteq> []"
  shows "split_from sep s =
     (if indexOf s sep < 0 then [s]
      else take (nat (indexOf s sep)) s #
           split_from sep (drop (nat (indexOf s sep) + length sep) s))"
proof (induction s)
  case Nil
  then show ?case using assms by simp
next
  case (Cons c cs)
  show ?case
  proof (cases "prefix sep (c # cs)")
    case True
    then show ?thesis using assms by simp
  next
    case False
    let ?k = "indexOf cs sep"
    show ?thesis
    proof (cases "?k < 0")
      case True
      then show ?thesis using False Cons by (simp add: Let_def)
    next
      case nonneg: False
      then have "nat (?k + 1) = Suc (nat ?k)" by simp
      then show ?thesis using False nonneg Cons by (simp add: Let_def)
    qed
  qed
qed

text \<open>
  The pieces of a split: the whole string when the separator does not occur, and the
  text before the first occurrence followed by the pieces of the rest otherwise.
\<close>

lemma split_from_not_Nil: "split_from sep s \<noteq> []"
  by (induction sep s rule: split_from.induct) (auto split: list.splits)

lemma split_from_no_occurrence:
  "\<not> sublist sep s \<Longrightarrow> split_from sep s = [s]"
proof (induction sep s rule: split_from.induct)
  case (1 sep)
  then show ?case by simp
next
  case (2 sep c cs)
  have np: "\<not> prefix sep (c # cs)"
    using "2.prems" by (meson prefix_imp_sublist)
  have "\<not> sublist sep cs"
    using "2.prems" by (meson sublist_Cons_right)
  with 2 np show ?case by simp
qed

lemma prefix_overlap:
  assumes "prefix sep (pre @ sep @ rest)" "pre \<noteq> []" 
  shows "prefix sep (pre @ butlast sep)"
proof (cases "sep = []")
  case True
  then show ?thesis by simp
next
  case False
  then have "length sep \<le> length (pre @ butlast sep)"
    using assms(2) by (cases pre) auto
  moreover have "pre @ sep @ rest = (pre @ butlast sep) @ (last sep # rest)"
    using False by simp
  ultimately show ?thesis
    using assms(1) by (metis prefix_length_prefix prefixI)
qed

lemma split_from_at_separator:
  "sep \<noteq> [] \<Longrightarrow> split_from sep (sep @ v) = [] # split_from sep v"
  by (cases sep) simp_all

lemma split_from_first_occurrence:
  assumes "sep \<noteq> []" "\<not> sublist sep (pre @ butlast sep)"
  shows "split_from sep (pre @ sep @ rest) = pre # split_from sep rest"
  using assms(2)
proof (induction pre)
  case Nil
  show ?case using assms(1) by (simp add: split_from_at_separator)
next
  case (Cons a pre)
  have np: "\<not> prefix sep ((a # pre) @ sep @ rest)"
  proof
    assume "prefix sep ((a # pre) @ sep @ rest)"
    then have "prefix sep ((a # pre) @ butlast sep)"
      by (rule prefix_overlap) simp
    then show False using Cons.prems by (meson prefix_imp_sublist)
  qed
  have "\<not> sublist sep (pre @ butlast sep)"
    using Cons.prems by (metis append_Cons sublist_Cons_right)
  then have "split_from sep (pre @ sep @ rest) = pre # split_from sep rest"
    by (rule Cons.IH)
  then show ?case using np by simp
qed

lemma split_from_two_pieces:
  "sep \<noteq> [] \<Longrightarrow> 2 \<le> length (split_from sep s) \<Longrightarrow>
     \<exists>u v. s = u @ sep @ v \<and> split_from sep s = u # split_from sep v"
proof (induction sep s rule: split_from.induct)
  case (1 sep)
  then show ?case by simp
next
  case (2 sep c cs)
  show ?case
  proof (cases "prefix sep (c # cs)")
    case True
    then obtain v where v: "c # cs = sep @ v" by (auto simp: prefix_def)
    then have "split_from sep (c # cs) = [] # split_from sep v"
      using split_from_at_separator [OF "2.prems"(1), of v] by simp
    then show ?thesis using v by (metis append_Nil)
  next
    case False
    obtain x xs where xs: "split_from sep cs = x # xs"
      using split_from_not_Nil [of sep cs] by (cases "split_from sep cs") auto
    then have r: "split_from sep (c # cs) = (c # x) # xs" using False by simp
    then have "2 \<le> length (split_from sep cs)" using "2.prems"(2) xs by simp
    then obtain u v where "cs = u @ sep @ v" "split_from sep cs = u # split_from sep v"
      using "2.IH"(2) False "2.prems"(1) by blast
    then have "c # cs = (c # u) @ sep @ v \<and> split_from sep (c # cs) = (c # u) # split_from sep v"
      using r xs by (simp del: split_from.simps)
    then show ?thesis by blast
  qed
qed

lemma split_from_hd_prefix: "split_from sep s = x # xs \<Longrightarrow> prefix x s"
proof (induction sep s arbitrary: x xs rule: split_from.induct)
  case (1 sep)
  then show ?case by simp
next
  case (2 sep c cs)
  show ?case
  proof (cases "sep \<noteq> [] \<and> prefix sep (c # cs)")
    case True
    then show ?thesis using "2.prems" by simp
  next
    case False
    obtain y ys where ys: "split_from sep cs = y # ys"
      using split_from_not_Nil [of sep cs] by (cases "split_from sep cs") auto
    then have "prefix y cs" using "2.IH"(2) False by blast
    then show ?thesis using "2.prems" False ys by auto
  qed
qed

lemma split_from_sublist: "x \<in> set (split_from sep s) \<Longrightarrow> sublist x s"
proof (induction sep s arbitrary: x rule: split_from.induct)
  case (1 sep)
  then show ?case by simp
next
  case (2 sep c cs)
  show ?case
  proof (cases "sep \<noteq> [] \<and> prefix sep (c # cs)")
    case True
    then have "x = [] \<or> x \<in> set (split_from sep (drop (length sep) (c # cs)))"
      using "2.prems" by simp
    then show ?thesis
    proof
      assume "x = []" then show ?thesis by simp
    next
      assume "x \<in> set (split_from sep (drop (length sep) (c # cs)))"
      then have "sublist x (drop (length sep) (c # cs))" using "2.IH"(1) True by blast
      then show ?thesis
        using sublist_order.order.trans sublist_drop by blast
    qed
  next
    case False
    obtain y ys where ys: "split_from sep cs = y # ys"
      using split_from_not_Nil [of sep cs] by (cases "split_from sep cs") auto
    then have r: "split_from sep (c # cs) = (c # y) # ys" using False by auto
    then have "x = c # y \<or> x \<in> set ys" using "2.prems" by simp
    then show ?thesis
    proof
      assume "x = c # y"
      moreover have "prefix y cs" using split_from_hd_prefix ys by blast
      ultimately show ?thesis by (simp add: prefix_imp_sublist)
    next
      assume "x \<in> set ys"
      then have "sublist x cs" using "2.IH"(2) False ys by simp
      then show ?thesis by (simp add: sublist_Cons_right)
    qed
  qed
qed

lemma at_Some_mem: "at xs i = Some x \<Longrightarrow> x \<in> set xs"
  by (auto simp: at_def split: if_splits)

lemma occurrence_before_end:
  assumes "x @ sep @ y = pre @ sep" "y \<noteq> []" "sep \<noteq> []"
  shows "sublist sep (pre @ butlast sep)"
proof -
  have "butlast (x @ sep @ y) = x @ sep @ butlast y"
    using assms(2) by (simp add: butlast_append)
  moreover have "butlast (pre @ sep) = pre @ butlast sep"
    using assms(3) by (simp add: butlast_append)
  ultimately have "pre @ butlast sep = x @ sep @ butlast y"
    using assms(1) by simp
  then show ?thesis by simp
qed

lemma labels_nonempty: "GLOBAL_PREFERENCES_SHARE_LINK_QUERY_VAR \<noteq> []"
  by (simp add: GLOBAL_PREFERENCES_SHARE_LINK_QUERY_VAR_def js_def)

lemma prefs_query_nonempty: "GLOBAL_PREFERENCES_QUERY_PARAM \<noteq> []"
  by (simp add: GLOBAL_PREFERENCES_QUERY_PARAM_def js_def)

lemma preferences_raw_sublist:
  "sublist (if search = [] then []
            else (case at (split search GLOBAL_PREFERENCES_QUERY_PARAM) 1 of
                    None \<Rightarrow> [] | Some r \<Rightarrow> r)) search"
proof (cases "at (split search GLOBAL_PREFERENCES_QUERY_PARAM) 1")
  case None
  then show ?thesis by simp
next
  case (Some r)
  then have "r \<in> set (split_from GLOBAL_PREFERENCES_QUERY_PARAM search)"
    using at_Some_mem [of "split search GLOBAL_PREFERENCES_QUERY_PARAM" 1 r]
    by (simp add: split_def prefs_query_nonempty)
  then have "sublist r search" by (rule split_from_sublist)
  then show ?thesis using Some by simp
qed

lemma indexOf_no_occurrence:
  "sub \<noteq> [] \<Longrightarrow> \<not> sublist sub s \<Longrightarrow> indexOf s sub = - 1"
proof (induction s)
  case Nil
  then show ?case by simp
next
  case (Cons c cs)
  then have "\<not> prefix sub (c # cs)" "\<not> sublist sub cs"
    by (auto simp: sublist_Cons_right)
  then show ?case using Cons by simp
qed

lemma indexOf_first_occurrence:
  assumes "sub \<noteq> []" "\<not> sublist sub (pre @ butlast sub)"
  shows "indexOf (pre @ sub @ post) sub = int (length pre)"
  using assms(2)
proof (induction pre)
  case Nil
  obtain c cs where "sub @ post = c # cs" using assms(1) by (cases sub) auto
  then show ?case using prefixI [of "sub @ post" sub post] by simp
next
  case (Cons a pre)
  have np: "\<not> prefix sub ((a # pre) @ sub @ post)"
  proof
    assume "prefix sub ((a # pre) @ sub @ post)"
    then have "prefix sub ((a # pre) @ butlast sub)"
      by (rule prefix_overlap) simp
    then show False using Cons.prems by (meson prefix_imp_sublist)
  qed
  have "\<not> sublist sub (pre @ butlast sub)"
    using Cons.prems by (metis append_Cons sublist_Cons_right)
  then have "indexOf (pre @ sub @ post) sub = int (length pre)"
    by (rule Cons.IH)
  then show ?case using np by simp
qed

lemma replace_first_occurrence:
  assumes "sub \<noteq> []" "\<not> sublist sub (pre @ butlast sub)"
  shows "replace (pre @ sub @ post) sub rep = pre @ rep @ post"
  using indexOf_first_occurrence [OF assms, of post]
  by (simp add: replace_def)

lemma sublist_singleton: "sublist [c] s \<longleftrightarrow> c \<in> set s"
  by (induction s) (auto simp: sublist_Cons_right)

lemma split_from_char:
  "c \<notin> set a \<Longrightarrow> split_from [c] (a @ c # rest) = a # split_from [c] rest"
  using split_from_first_occurrence [of "[c]" a rest] by (simp add: sublist_singleton)

lemma split_from_char_last: "c \<notin> set a \<Longrightarrow> split_from [c] a = [a]"
  by (rule split_from_no_occurrence) (simp add: sublist_singleton)

lemma aragonid_no_overlap:
  assumes "\<not> sublist ARAGONID_ENS_DOMAIN label"
  shows "\<not> sublist ARAGONID_ENS_DOMAIN ((label @ js ''.'') @ butlast ARAGONID_ENS_DOMAIN)"
proof
  let ?A = "ARAGONID_ENS_DOMAIN"
  let ?T = "js ''.'' @ butlast ARAGONID_ENS_DOMAIN"
  assume "sublist ?A ((label @ js ''.'') @ butlast ?A)"
  then have "sublist ?A (label @ ?T)" by simp
  then consider "sublist ?A label" | "sublist ?A ?T"
    | xs1 xs2 where "?A = xs1 @ xs2" "suffix xs1 label" "prefix xs2 ?T"
    unfolding sublist_append by blast
  then show False
  proof cases
    case 1
    then show ?thesis using assms by simp
  next
    case 2
    then show ?thesis by (simp add: ARAGONID_ENS_DOMAIN_def js_def sublist_code)
  next
    case 3
    have "xs2 = []"
      using 3(1,3)
      by (auto simp: ARAGONID_ENS_DOMAIN_def js_def Cons_eq_append_conv)
    then have "sublist ?A label" using 3(1,2) by simp
    then show ?thesis using assms by simp
  qed
qed


section \<open>Facts about the percent-encoding\<close>

lemma unat_jschar_of_nat: "k < 0x10000 \<Longrightarrow> unat (of_nat k :: jschar) = k"
  by (rule of_nat_inverse [OF refl]) simp

lemma unat_hexDigit: "n < 16 \<Longrightarrow> unat (hexDigit n) = (if n < 10 then 48 + n else 55 + n)"
  unfolding hexDigit_def by (simp only: unat_jschar_of_nat split: if_splits) simp

lemma hexValue_hexDigit:
  assumes "n < 16"
  shows "hexValue (hexDigit n) = Some n"
  using assms unat_hexDigit [OF assms]
  by (simp add: hexValue_def word_le_nat_alt)

lemma percentEncode_Cons:
  "percentEncode (b # bs) = 0x25 # hexDigit (b div 16) # hexDigit (b mod 16) # percentEncode bs"
  by (simp add: percentEncode_def)

lemma percentEncode_Nil: "percentEncode [] = []"
  by (simp add: percentEncode_def)

lemma hexOctet_percentEncode:
  assumes "b < 256"
  shows "hexOctet (percentEncode (b # bs) @ r) = Some (b, percentEncode bs @ r)"
proof -
  have "b div 16 < 16" "b mod 16 < 16" using assms by auto
  then show ?thesis
    by (simp add: percentEncode_Cons hexValue_hexDigit)
qed

lemma continuationOctets_percentEncode:
  "list_all (\<lambda>b. b < 256) bs \<Longrightarrow>
     continuationOctets (length bs) (percentEncode bs @ r) = Some (bs, r)"
proof (induction bs)
  case Nil
  then show ?case by (simp add: percentEncode_Nil)
next
  case (Cons b bs)
  then show ?case by (simp add: hexOctet_percentEncode)
qed


lemma Decode_escape_single:
  assumes "b < 0x80"
  shows "Decode (percentEncode [b] @ r) = map_option ((#) (of_nat b)) (Decode r)"
proof -
  have ho: "hexOctet (0x25 # hexDigit (b div 16) # hexDigit (b mod 16) # r) = Some (b, r)"
    using hexOctet_percentEncode [of b "[]" r] assms
    by (simp add: percentEncode_Cons percentEncode_Nil del: hexOctet.simps)
  have "Decode (0x25 # hexDigit (b div 16) # hexDigit (b mod 16) # r)
          = map_option ((#) (of_nat b)) (Decode r)"
    using assms by (simp add: ho leadingOnes_def del: hexOctet.simps)
  then show ?thesis by (simp add: percentEncode_Cons percentEncode_Nil)
qed

lemma Decode_escape_multi:
  assumes "b0 < 256" "list_all (\<lambda>b. b < 256) bs"
    and "leadingOnes b0 = Suc (length bs)" "bs \<noteq> []" "length bs \<le> 3"
    and "utf8Decode (b0 # bs) = Some cp"
  shows "Decode (percentEncode (b0 # bs) @ r) = map_option ((@) (utf16Encode cp)) (Decode r)"
proof -
  let ?rest = "percentEncode bs @ r"
  have ho: "hexOctet (0x25 # hexDigit (b0 div 16) # hexDigit (b0 mod 16) # ?rest) = Some (b0, ?rest)"
    using hexOctet_percentEncode [of b0 bs r] assms(1)
    by (simp add: percentEncode_Cons del: hexOctet.simps)
  have co: "continuationOctets (leadingOnes b0 - Suc 0) ?rest = Some (bs, r)"
    using continuationOctets_percentEncode [OF assms(2), of r] assms(3) by simp
  have n: "leadingOnes b0 \<noteq> 0" "leadingOnes b0 \<noteq> 1" "\<not> 4 < leadingOnes b0"
    using assms(3,4,5) by (cases bs; simp)+
  have "Decode (0x25 # hexDigit (b0 div 16) # hexDigit (b0 mod 16) # ?rest)
          = map_option ((@) (utf16Encode cp)) (Decode r)"
    using n by (simp add: ho co assms(6) Let_def del: hexOctet.simps utf8Decode.simps)
  then show ?thesis by (simp add: percentEncode_Cons)
qed

lemma utf8_two:
  assumes "0x80 \<le> cp" "cp < 0x800"
  shows "utf8Encode cp = [0xC0 + cp div 64, 0x80 + cp mod 64]"
    and "leadingOnes (0xC0 + cp div 64) = 2"
    and "utf8Decode [0xC0 + cp div 64, 0x80 + cp mod 64] = Some cp"
    and "0xC0 + cp div 64 < 256"
proof -
  show "utf8Encode cp = [0xC0 + cp div 64, 0x80 + cp mod 64]"
    using assms by (simp add: utf8Encode_def)
  have d: "cp div 64 < 32" using assms by simp
  then show "leadingOnes (0xC0 + cp div 64) = 2" by (simp add: leadingOnes_def)
  show "utf8Decode [0xC0 + cp div 64, 0x80 + cp mod 64] = Some cp"
    using assms d by (simp add: isContinuation_def leadingOnes_def)
  show "0xC0 + cp div 64 < 256" using d by simp
qed


lemma split3: "cp div 4096 * 4096 + cp div 64 mod 64 * 64 + cp mod 64 = (cp :: nat)"
proof -
  define x where "x = cp div 64"
  define q where "q = x div 64"
  define m where "m = x mod 64"
  have a: "cp div 4096 = q" by (simp add: q_def x_def div_mult2_eq)
  have b: "q * 64 + m = x" by (simp add: q_def m_def)
  have c: "x * 64 + cp mod 64 = cp" by (simp add: x_def)
  have "q * 4096 + m * 64 + cp mod 64 = cp" using b c by linarith
  then show ?thesis using a by (simp add: m_def x_def)
qed

lemma split4:
  "cp div 262144 * 262144 + cp div 4096 mod 64 * 4096 + cp div 64 mod 64 * 64 + cp mod 64 = (cp :: nat)"
proof -
  define y where "y = cp div 4096"
  define q where "q = y div 64"
  define m where "m = y mod 64"
  have a: "cp div 262144 = q" by (simp add: q_def y_def div_mult2_eq)
  have b: "q * 64 + m = y" by (simp add: q_def m_def)
  have c: "y * 4096 + cp div 64 mod 64 * 64 + cp mod 64 = cp"
    using split3 [of cp] by (simp add: y_def)
  have "q * 262144 + m * 4096 + cp div 64 mod 64 * 64 + cp mod 64 = cp" using b c by linarith
  then show ?thesis using a by (simp add: m_def y_def)
qed


lemma utf8_three:
  assumes "0x800 \<le> cp" "cp < 0x10000" "\<not> (0xD800 \<le> cp \<and> cp \<le> 0xDFFF)"
  shows "utf8Encode cp = [0xE0 + cp div 4096, 0x80 + cp div 64 mod 64, 0x80 + cp mod 64]"
    and "leadingOnes (0xE0 + cp div 4096) = 3"
    and "utf8Decode [0xE0 + cp div 4096, 0x80 + cp div 64 mod 64, 0x80 + cp mod 64] = Some cp"
    and "0xE0 + cp div 4096 < 256"
proof -
  show "utf8Encode cp = [0xE0 + cp div 4096, 0x80 + cp div 64 mod 64, 0x80 + cp mod 64]"
    using assms by (simp add: utf8Encode_def)
  have d: "cp div 4096 < 16" using assms by simp
  then show "leadingOnes (0xE0 + cp div 4096) = 3" by (simp add: leadingOnes_def)
  have "cp div 4096 * 4096 + cp div 64 mod 64 * 64 + cp mod 64 = cp"
    by (rule split3)
  then show "utf8Decode [0xE0 + cp div 4096, 0x80 + cp div 64 mod 64, 0x80 + cp mod 64] = Some cp"
    using assms d by (simp add: isContinuation_def leadingOnes_def)
  show "0xE0 + cp div 4096 < 256" using d by simp
qed

lemma utf8_four:
  assumes "0x10000 \<le> cp" "cp < 0x110000"
  shows "utf8Encode cp = [0xF0 + cp div 262144, 0x80 + cp div 4096 mod 64,
            0x80 + cp div 64 mod 64, 0x80 + cp mod 64]"
    and "leadingOnes (0xF0 + cp div 262144) = 4"
    and "utf8Decode [0xF0 + cp div 262144, 0x80 + cp div 4096 mod 64,
            0x80 + cp div 64 mod 64, 0x80 + cp mod 64] = Some cp"
    and "0xF0 + cp div 262144 < 256"
proof -
  show "utf8Encode cp = [0xF0 + cp div 262144, 0x80 + cp div 4096 mod 64,
            0x80 + cp div 64 mod 64, 0x80 + cp mod 64]"
    using assms by (simp add: utf8Encode_def)
  have d: "cp div 262144 < 5" using assms by simp
  then show "leadingOnes (0xF0 + cp div 262144) = 4" by (simp add: leadingOnes_def)
  have "cp div 262144 * 262144 + cp div 4096 mod 64 * 4096 + cp div 64 mod 64 * 64 + cp mod 64 = cp"
    by (rule split4)
  then show "utf8Decode [0xF0 + cp div 262144, 0x80 + cp div 4096 mod 64,
            0x80 + cp div 64 mod 64, 0x80 + cp mod 64] = Some cp"
    using assms d by (simp add: isContinuation_def leadingOnes_def)
  show "0xF0 + cp div 262144 < 256" using d by simp
qed

lemma mod_64_less: "(x :: nat) mod 64 < 128"
  using mod_less_divisor [of 64 x] by linarith

lemma append_singleton: "(@) [x] = (#) x"
  by (rule ext) simp

lemma Decode_percentEncode_utf8:
  assumes "isScalar cp"
  shows "Decode (percentEncode (utf8Encode cp) @ r) = map_option ((@) (utf16Encode cp)) (Decode r)"
proof -
  consider (one) "cp < 0x80" | (two) "0x80 \<le> cp" "cp < 0x800" | (three) "0x800 \<le> cp" "cp < 0x10000"
    | (four) "0x10000 \<le> cp" by linarith
  then show ?thesis
  proof cases
    case one
    then show ?thesis
      using Decode_escape_single [of cp r]
      by (simp add: utf8Encode_def utf16Encode_def append_singleton)
  next
    case two
    have "Decode (percentEncode [0xC0 + cp div 64, 0x80 + cp mod 64] @ r)
            = map_option ((@) (utf16Encode cp)) (Decode r)"
      by (rule Decode_escape_multi [OF utf8_two(4) [OF two] _ _ _ _ utf8_two(3) [OF two]])
        (simp_all add: utf8_two(2) [OF two] mod_64_less)
    then show ?thesis by (simp only: utf8_two(1) [OF two])
  next
    case three
    then have s: "\<not> (0xD800 \<le> cp \<and> cp \<le> 0xDFFF)" using assms by (simp add: isScalar_def)
    have "Decode (percentEncode [0xE0 + cp div 4096, 0x80 + cp div 64 mod 64, 0x80 + cp mod 64] @ r)
            = map_option ((@) (utf16Encode cp)) (Decode r)"
      by (rule Decode_escape_multi [OF utf8_three(4) [OF three s] _ _ _ _ utf8_three(3) [OF three s]])
        (simp_all add: utf8_three(2) [OF three s] mod_64_less)
    then show ?thesis by (simp only: utf8_three(1) [OF three s])
  next
    case four
    then have s: "cp < 0x110000" using assms by (simp add: isScalar_def)
    have "Decode (percentEncode [0xF0 + cp div 262144, 0x80 + cp div 4096 mod 64,
            0x80 + cp div 64 mod 64, 0x80 + cp mod 64] @ r)
            = map_option ((@) (utf16Encode cp)) (Decode r)"
      by (rule Decode_escape_multi [OF utf8_four(4) [OF four s] _ _ _ _ utf8_four(3) [OF four s]])
        (simp_all add: utf8_four(2) [OF four s] mod_64_less)
    then show ?thesis by (simp only: utf8_four(1) [OF four s])
  qed
qed

lemma surrogates_nat:
  "isLeadSurrogate c \<longleftrightarrow> 0xD800 \<le> unat c \<and> unat c \<le> 0xDBFF"
  "isTrailSurrogate c \<longleftrightarrow> 0xDC00 \<le> unat c \<and> unat c \<le> 0xDFFF"
  by (simp_all add: isLeadSurrogate_def isTrailSurrogate_def word_le_nat_alt)

lemma unat_jschar_less: "unat (c :: jschar) < 0x10000"
  using unsigned_less [of c, where 'a = nat] by simp

lemma utf16Encode_bmp: "utf16Encode (unat (c :: jschar)) = [c]"
  using unat_jschar_less [of c] by (simp add: utf16Encode_def)

lemma utf16Encode_pair:
  assumes "isLeadSurrogate c" "isTrailSurrogate d"
  shows "utf16Encode (surrogatePair c d) = [c, d]" and "isScalar (surrogatePair c d)"
proof -
  define h where "h = unat c - 0xD800"
  define l where "l = unat d - 0xDC00"
  have h: "h < 0x400" "unat c = 0xD800 + h" using assms(1) by (auto simp: surrogates_nat h_def)
  have l: "l < 0x400" "unat d = 0xDC00 + l" using assms(2) by (auto simp: surrogates_nat l_def)
  have sp: "surrogatePair c d = h * 0x400 + l + 0x10000"
    by (simp add: surrogatePair_def h_def l_def)
  have "(h * 0x400 + l) div 0x400 = h" "(h * 0x400 + l) mod 0x400 = l" using l(1) by simp_all
  then have "utf16Encode (surrogatePair c d) = [of_nat (unat c), of_nat (unat d)]"
    unfolding sp h(2) l(2) by (simp add: utf16Encode_def)
  then show "utf16Encode (surrogatePair c d) = [c, d]" by simp
  show "isScalar (surrogatePair c d)" using h(1) l(1) unfolding sp by (simp add: isScalar_def)
qed

lemma uriUnescaped_not_percent: "uriUnescaped c \<Longrightarrow> c \<noteq> 0x25"
  by (auto simp: uriUnescaped_def)

lemma Decode_Encode: "Encode s = Some e \<Longrightarrow> Decode e = Some s"
proof (induction s arbitrary: e rule: Encode.induct)
  case 1
  then show ?case by simp
next
  case (2 c cs)
  show ?case
  proof (cases "uriUnescaped c")
    case True
    then obtain e' where e': "Encode cs = Some e'" "e = c # e'"
      using "2.prems" by auto
    then have "Decode e' = Some cs" using "2.IH"(1) True by simp
    then show ?thesis using e'(2) uriUnescaped_not_percent [OF True] by simp
  next
    case False
    note nu = False
    show ?thesis
    proof (cases "isLeadSurrogate c")
      case True
      then have nt: "\<not> isTrailSurrogate c" by (auto simp: surrogates_nat)
      obtain d ds where cs: "cs = d # ds" "isTrailSurrogate d"
        using "2.prems" nu nt True by (cases cs) (auto split: if_splits)
      then obtain e' where e': "Encode ds = Some e'"
          "e = percentEncode (utf8Encode (surrogatePair c d)) @ e'"
        using "2.prems" nu nt True by auto
      have "Decode e' = Some ds" using "2.IH"(2) nu nt True cs e'(1) by simp
      then show ?thesis
        using e'(2) cs(1) utf16Encode_pair [OF True cs(2)]
        by (simp add: Decode_percentEncode_utf8)
    next
      case False
      have nt: "\<not> isTrailSurrogate c" using "2.prems" nu by (auto split: if_splits)
      obtain e' where e': "Encode cs = Some e'" "e = percentEncode (utf8Encode (unat c)) @ e'"
        using "2.prems" nu nt False by auto
      have "Decode e' = Some cs" using "2.IH"(3) nu nt False e'(1) by simp
      moreover have "isScalar (unat c)"
        using nt False unat_jschar_less [of c] by (auto simp: isScalar_def surrogates_nat)
      ultimately show ?thesis
        using e'(2) by (simp add: Decode_percentEncode_utf8 utf16Encode_bmp)
    qed
  qed
qed

lemma uriUnescaped_not_surrogate:
  "uriUnescaped c \<Longrightarrow> \<not> isLeadSurrogate c \<and> \<not> isTrailSurrogate c"
  by (auto simp: uriUnescaped_def isLeadSurrogate_def isTrailSurrogate_def word_le_nat_alt)

lemma Encode_wellFormed: "isWellFormed s \<longleftrightarrow> Encode s \<noteq> None"
proof (induction s rule: Encode.induct)
  case 1
  then show ?case by simp
next
  case (2 c cs)
  show ?case
  proof (cases "uriUnescaped c")
    case True
    then show ?thesis using 2(1) uriUnescaped_not_surrogate [OF True] by simp
  next
    case nu: False
    show ?thesis
    proof (cases "isLeadSurrogate c")
      case True
      then have nt: "\<not> isTrailSurrogate c" by (auto simp: surrogates_nat)
      show ?thesis
      proof (cases cs)
        case Nil
        then show ?thesis using nu nt True by simp
      next
        case (Cons d ds)
        then show ?thesis using nu nt True 2(2) by simp
      qed
    next
      case False
      then show ?thesis using nu 2(3) by simp
    qed
  qed
qed

lemma hexDigit_not_question:
  assumes "n < 16"
  shows "hexDigit n \<noteq> 0x3F"
proof
  assume "hexDigit n = 0x3F"
  then have "unat (hexDigit n) = 63" by simp
  then show False using assms unat_hexDigit [OF assms] by (simp split: if_splits)
qed

lemma percentEncode_no_question:
  "list_all (\<lambda>b. b < 256) bs \<Longrightarrow> 0x3F \<notin> set (percentEncode bs)"
proof (induction bs)
  case Nil
  then show ?case by (simp add: percentEncode_Nil)
next
  case (Cons b bs)
  then have "b div 16 < 16" "b mod 16 < 16" by auto
  then show ?case using Cons
    by (simp add: percentEncode_Cons hexDigit_not_question)
qed

lemma utf8Encode_octets: "cp < 0x110000 \<Longrightarrow> list_all (\<lambda>b. b < 256) (utf8Encode cp)"
  by (auto simp: utf8Encode_def mod_64_less; arith)

lemma Encode_no_question: "Encode s = Some e \<Longrightarrow> 0x3F \<notin> set e"
proof (induction s arbitrary: e rule: Encode.induct)
  case 1
  then show ?case by simp
next
  case (2 c cs)
  show ?case
  proof (cases "uriUnescaped c")
    case True
    then obtain e' where e': "Encode cs = Some e'" "e = c # e'"
      using "2.prems" by auto
    moreover have "c \<noteq> 0x3F" using True by (auto simp: uriUnescaped_def)
    ultimately show ?thesis using "2.IH"(1) True by simp
  next
    case nu: False
    show ?thesis
    proof (cases "isLeadSurrogate c")
      case True
      then have nt: "\<not> isTrailSurrogate c" by (auto simp: surrogates_nat)
      obtain d ds where cs: "cs = d # ds" "isTrailSurrogate d"
        using "2.prems" nu nt True by (cases cs) (auto split: if_splits)
      then obtain e' where e': "Encode ds = Some e'"
          "e = percentEncode (utf8Encode (surrogatePair c d)) @ e'"
        using "2.prems" nu nt True by auto
      have "surrogatePair c d < 0x110000"
        using utf16Encode_pair(2) [OF True cs(2)] by (simp add: isScalar_def)
      then have "0x3F \<notin> set (percentEncode (utf8Encode (surrogatePair c d)))"
        by (intro percentEncode_no_question utf8Encode_octets)
      moreover have "0x3F \<notin> set e'" using "2.IH"(2) nu nt True cs e'(1) by simp
      ultimately show ?thesis using e'(2) by simp
    next
      case False
      have nt: "\<not> isTrailSurrogate c" using "2.prems" nu by (auto split: if_splits)
      obtain e' where e': "Encode cs = Some e'" "e = percentEncode (utf8Encode (unat c)) @ e'"
        using "2.prems" nu nt False by auto
      have "unat c < 0x110000" using unat_jschar_less [of c] by simp
      then have "0x3F \<notin> set (percentEncode (utf8Encode (unat c)))"
        by (intro percentEncode_no_question utf8Encode_octets)
      moreover have "0x3F \<notin> set e'" using "2.IH"(3) nu nt False e'(1) by simp
      ultimately show ?thesis using e'(2) by simp
    qed
  qed
qed

lemma Encode_not_Nil: "Encode s = Some e \<Longrightarrow> s \<noteq> [] \<Longrightarrow> e \<noteq> []"
  using Decode_Encode [of s e] by auto

section \<open>Facts about the module\<close>

lemma no_labels_params_empty:
  assumes "\<not> sublist GLOBAL_PREFERENCES_SHARE_LINK_QUERY_VAR search \<or>
     (\<exists>pre. search = pre @ GLOBAL_PREFERENCES_SHARE_LINK_QUERY_VAR \<and>
        \<not> sublist GLOBAL_PREFERENCES_SHARE_LINK_QUERY_VAR
             (pre @ butlast GLOBAL_PREFERENCES_SHARE_LINK_QUERY_VAR))"
  shows "pref_params (parsePreferences search) = Map.empty"
proof -
  let ?L = GLOBAL_PREFERENCES_SHARE_LINK_QUERY_VAR
  let ?raw = "if search = [] then []
              else (case at (split search GLOBAL_PREFERENCES_QUERY_PARAM) 1 of
                      None \<Rightarrow> [] | Some r \<Rightarrow> r)"
  have L: "?L \<noteq> []" by (rule labels_nonempty)
  have params: "pref_params (parsePreferences search) =
     (case at (split_from ?L ?raw) 1 of None \<Rightarrow> Map.empty
      | Some l \<Rightarrow> if l \<noteq> [] then [?L \<mapsto> l] else Map.empty)"
    using L by (simp add: parsePreferences_def split_def Let_def)
  show ?thesis
  proof (cases "2 \<le> length (split_from ?L ?raw)")
    case False
    then have "at (split_from ?L ?raw) 1 = None" by (simp add: at_def)
    then show ?thesis using params by simp
  next
    case True
    then obtain u v where uv: "?raw = u @ ?L @ v" "split_from ?L ?raw = u # split_from ?L v"
      using split_from_two_pieces [OF L] by blast
    obtain a b where ab: "search = a @ ?raw @ b"
      using preferences_raw_sublist [of search] unfolding sublist_def by blast
    then have occ: "search = (a @ u) @ ?L @ (v @ b)" using uv(1) by simp
    then have "sublist ?L search" by (metis sublist_appendI)
    then obtain pre where pre: "search = pre @ ?L" "\<not> sublist ?L (pre @ butlast ?L)"
      using assms by auto
    have "v @ b = []"
    proof (rule ccontr)
      assume "v @ b \<noteq> []"
      then have "sublist ?L (pre @ butlast ?L)"
        using occurrence_before_end [of "a @ u" ?L "v @ b" pre] occ pre(1) L by simp
      then show False using pre(2) by simp
    qed
    then have "split_from ?L ?raw = [u, []]" using uv(2) by simp
    then have "at (split_from ?L ?raw) 1 = Some []" by (simp add: at_def)
    then show ?thesis using params by simp
  qed
qed

lemma parsePath_org_mode:
  "mode (fst (parsePath isAddress isValidEnsName history pathname search)) = APP_MODE_ORG \<longleftrightarrow>
     (\<exists>part0 rest. tl (split pathname (js ''/'')) = part0 # rest \<and> part0 \<noteq> [] \<and>
        part0 \<noteq> js ''open'' \<and> part0 \<noteq> js ''create'' \<and> part0 \<noteq> js ''setup'')"
  by (auto simp: parsePath_def Let_def split: list.splits)

lemma parsePath_org:
  assumes "tl (split pathname (js ''/'')) = part0 # rest"
    and "part0 \<noteq> []" "part0 \<noteq> js ''open''" "part0 \<noteq> js ''create''" "part0 \<noteq> js ''setup''"
  shows "parsePath isAddress isValidEnsName history pathname search =
     (OrgLocator (pathname @ search)
        (if \<not> isAddress part0 \<and> \<not> isValidEnsName part0
         then part0 @ js ''.'' @ ARAGONID_ENS_DOMAIN else part0)
        (case rest of [] \<Rightarrow> js ''home'' | i # _ \<Rightarrow> if i = [] then js ''home'' else i)
        (case (if search = [] then Some [] else at (split search (js ''?p='')) 1) of
           None \<Rightarrow> None
         | Some r \<Rightarrow> if r = [] then None
                     else (case decodeURIComponent r of Inl err \<Rightarrow> None | Inr v \<Rightarrow> Some v))
        (tl rest)
        (parsePreferences search),
      if isValidEnsName part0 \<and> endsWith part0 ARAGONID_ENS_DOMAIN
      then history @ [\<lparr>nav_pathname = replace pathname (js ''.'' @ ARAGONID_ENS_DOMAIN) [],
                       nav_search = search, nav_state = \<lparr>alreadyParsed = True\<rparr>\<rparr>]
      else history)"
  using assms by (cases rest) (auto simp: parsePath_def Let_def at_def)

lemma marker_nonempty: "js ''?p='' \<noteq> []"
  by (simp add: js_def)

lemma rawParams_between:
  assumes "search = pre @ js ''?p='' @ raw @ rest"
    and "\<not> sublist (js ''?p='') (pre @ butlast (js ''?p=''))"
    and "(rest = [] \<and> \<not> sublist (js ''?p='') raw) \<or>
         (prefix (js ''?p='') rest \<and> \<not> sublist (js ''?p='') (raw @ butlast (js ''?p='')))"
  shows "(if search = [] then Some [] else at (split search (js ''?p='')) 1) = Some raw"
proof -
  let ?M = "js ''?p=''"
  have M: "?M \<noteq> []" by (rule marker_nonempty)
  have ne: "search \<noteq> []" using assms(1) M by simp
  have first: "split_from ?M search = pre # split_from ?M (raw @ rest)"
    using split_from_first_occurrence [OF M assms(2), of "raw @ rest"] assms(1) by simp
  have "\<exists>xs. split_from ?M (raw @ rest) = raw # xs"
    using assms(3)
  proof
    assume "rest = [] \<and> \<not> sublist ?M raw"
    then show ?thesis by (simp add: split_from_no_occurrence)
  next
    assume a: "prefix ?M rest \<and> \<not> sublist ?M (raw @ butlast ?M)"
    then obtain rest' where "rest = ?M @ rest'" by (auto simp: prefix_def)
    then show ?thesis
      using split_from_first_occurrence [OF M, of raw rest'] a by simp
  qed
  then show ?thesis using first ne M by (auto simp: split_def at_def)
qed

lemma rawParams_absent:
  assumes "\<not> sublist (js ''?p='') search"
  shows "(if search = [] then Some [] else at (split search (js ''?p='')) 1) \<in> {None, Some []}"
  using assms by (simp add: split_def marker_nonempty split_from_no_occurrence at_def)

lemma aragonid_nonempty: "ARAGONID_ENS_DOMAIN \<noteq> []"
  by (simp add: ARAGONID_ENS_DOMAIN_def js_def)

lemma getAppPath_dao_unchanged:
  assumes "\<not> sublist ARAGONID_ENS_DOMAIN dao"
  shows "(if indexOf dao ARAGONID_ENS_DOMAIN > - 1
          then substr dao 0 (indexOf dao ARAGONID_ENS_DOMAIN - 1) else dao) = dao"
  using indexOf_no_occurrence [OF aragonid_nonempty assms] by simp

lemma getAppPath_dao_stripped:
  assumes "\<not> sublist ARAGONID_ENS_DOMAIN short"
  shows "(if indexOf (short @ js ''.aragonid.eth'') ARAGONID_ENS_DOMAIN > - 1
          then substr (short @ js ''.aragonid.eth'') 0
                 (indexOf (short @ js ''.aragonid.eth'') ARAGONID_ENS_DOMAIN - 1)
          else short @ js ''.aragonid.eth'') = short"
proof -
  have dao: "short @ js ''.aragonid.eth'' = (short @ js ''.'') @ ARAGONID_ENS_DOMAIN @ []"
    by (simp add: ARAGONID_ENS_DOMAIN_def js_def)
  have "indexOf ((short @ js ''.'') @ ARAGONID_ENS_DOMAIN @ []) ARAGONID_ENS_DOMAIN
          = int (length (short @ js ''.''))"
    using assms by (intro indexOf_first_occurrence aragonid_nonempty aragonid_no_overlap)
  then have "indexOf (short @ js ''.aragonid.eth'') ARAGONID_ENS_DOMAIN = int (length short) + 1"
    unfolding dao by (simp add: js_def)
  then show ?thesis by (simp add: substr_def)
qed

lemma segments_two:
  assumes "0x2F \<notin> set short" "0x2F \<notin> set instanceId"
  shows "tl (split (js ''/'' @ short @ js ''/'' @ instanceId) (js ''/'')) = [short, instanceId]"
proof -
  have "split_from [0x2F] ([] @ 0x2F # short @ 0x2F # instanceId)
          = [] # split_from [0x2F] (short @ 0x2F # instanceId)"
    by (rule split_from_char) simp
  moreover have "split_from [0x2F] (short @ 0x2F # instanceId) = short # split_from [0x2F] instanceId"
    using assms(1) by (rule split_from_char)
  moreover have "split_from [0x2F] instanceId = [instanceId]"
    using assms(2) by (rule split_from_char_last)
  ultimately show ?thesis by (simp add: split_def js_def)
qed

lemma takeWhile_until:
  "q \<notin> set a \<Longrightarrow> b = [] \<or> hd b = q \<Longrightarrow> takeWhile (\<lambda>x. x \<noteq> q) (a @ b) = a"
  by (induction a) (auto simp: takeWhile_eq_Nil_iff)

lemma split_at_question_unique:
  assumes "a @ b = c @ d" "q \<notin> set a" "q \<notin> set c" "b = [] \<or> hd b = q" "d = [] \<or> hd d = q"
  shows "a = c \<and> b = d"
proof -
  have "takeWhile (\<lambda>x. x \<noteq> q) (a @ b) = a"
    using assms(2,4) by (rule takeWhile_until)
  moreover have "takeWhile (\<lambda>x. x \<noteq> q) (c @ d) = c"
    using assms(3,5) by (rule takeWhile_until)
  ultimately have "a = c" using assms(1) by simp
  then show ?thesis using assms(1) by simp
qed

lemma endsWith_aragonid_not_reserved:
  assumes "endsWith part0 ARAGONID_ENS_DOMAIN"
  shows "part0 \<noteq> []" "part0 \<noteq> js ''open''" "part0 \<noteq> js ''create''" "part0 \<noteq> js ''setup''"
proof -
  have "12 \<le> length part0"
    using suffix_length_le [of ARAGONID_ENS_DOMAIN part0] assms
    by (simp add: endsWith_def ARAGONID_ENS_DOMAIN_def js_def)
  then show "part0 \<noteq> []" "part0 \<noteq> js ''open''" "part0 \<noteq> js ''create''" "part0 \<noteq> js ''setup''"
    by (auto simp: js_def)
qed

lemma parsePath_redirect:
  assumes "tl (split pathname (js ''/'')) = part0 # rest"
    and "isValidEnsName part0" "endsWith part0 ARAGONID_ENS_DOMAIN"
  shows "snd (parsePath isAddress isValidEnsName history pathname search) =
           history @ [\<lparr>nav_pathname = replace pathname (js ''.aragonid.eth'') [],
                        nav_search = search, nav_state = \<lparr>alreadyParsed = True\<rparr>\<rparr>] \<and>
         mode (fst (parsePath isAddress isValidEnsName history pathname search)) = APP_MODE_ORG \<and>
         loc_dao (fst (parsePath isAddress isValidEnsName history pathname search)) = part0"
  using assms(2,3)
  by (simp add: parsePath_org [OF assms(1) endsWith_aragonid_not_reserved [OF assms(3)]]
      ARAGONID_ENS_DOMAIN_def js_def)

lemma parsePath_redirect_suffix:
  assumes "pathname = js ''/'' @ label @ js ''.aragonid.eth'' @ post"
    and "0x2F \<notin> set label" "post = [] \<or> hd post = 0x2F"
    and "isValidEnsName (label @ js ''.aragonid.eth'')"
    and "\<not> sublist (js ''.aragonid.eth'') ((js ''/'' @ label) @ butlast (js ''.aragonid.eth''))"
  shows "snd (parsePath isAddress isValidEnsName history pathname search) =
           history @ [\<lparr>nav_pathname = js ''/'' @ label @ post,
                        nav_search = search, nav_state = \<lparr>alreadyParsed = True\<rparr>\<rparr>] \<and>
         loc_dao (fst (parsePath isAddress isValidEnsName history pathname search))
           = label @ js ''.aragonid.eth''"
proof -
  let ?D = "js ''.aragonid.eth''"
  have D: "?D \<noteq> []" by (simp add: js_def)
  have nd: "0x2F \<notin> set (label @ ?D)" using assms(2) by (simp add: js_def)
  have "\<exists>rest. split_from [0x2F] ((label @ ?D) @ post) = (label @ ?D) # rest"
    using assms(3)
  proof
    assume "post = []"
    then show ?thesis using split_from_char_last [OF nd] by simp
  next
    assume h: "hd post = 0x2F"
    show ?thesis
    proof (cases post)
      case Nil
      then show ?thesis using split_from_char_last [OF nd] by simp
    next
      case (Cons a post')
      then show ?thesis using split_from_char [OF nd, of post'] h by simp
    qed
  qed
  then obtain rest where "split_from [0x2F] ((label @ ?D) @ post) = (label @ ?D) # rest" by blast
  moreover have "split_from [0x2F] ([] @ 0x2F # (label @ ?D) @ post)
          = [] # split_from [0x2F] ((label @ ?D) @ post)"
    by (rule split_from_char) simp
  ultimately have seg: "tl (split pathname (js ''/'')) = (label @ ?D) # rest"
    using assms(1) by (simp add: split_def js_def)
  have e: "endsWith (label @ ?D) ARAGONID_ENS_DOMAIN"
    by (simp add: endsWith_def ARAGONID_ENS_DOMAIN_def js_def suffix_def)
  have r: "replace pathname ?D [] = (js ''/'' @ label) @ [] @ post"
    using replace_first_occurrence [OF D assms(5), of post "[]"] assms(1) by simp
  show ?thesis
    using parsePath_redirect [where isValidEnsName = isValidEnsName and isAddress = isAddress
        and history = history and search = search, OF seg assms(4) e] r
    by simp
qed

text \<open>The request for \<open>/mydao.aragonid.eth\<close> is for \<open>/mydao\<close>.\<close>

lemma parsePath_redirect_example:
  "parsePath exampleIsAddress exampleIsValidEnsName [] (js ''/mydao.aragonid.eth'') [] =
     (OrgLocator (js ''/mydao.aragonid.eth'') (js ''mydao.aragonid.eth'') (js ''home'') None []
        \<lparr>pref_path = Some [], pref_params = Map.empty\<rparr>,
      [\<lparr>nav_pathname = js ''/mydao'', nav_search = [],
        nav_state = \<lparr>alreadyParsed = True\<rparr>\<rparr>])"
  by (simp add: parsePath_def parsePreferences_def split_def js_def at_def replace_def
      ARAGONID_ENS_DOMAIN_def GLOBAL_PREFERENCES_SHARE_LINK_QUERY_VAR_def endsWith_def
      exampleIsAddress_def exampleIsValidEnsName_def isWordChar_def suffix_to_prefix)

section \<open>The start and setup modes\<close>

text \<open>
  C8. For the pathnames \<open>""\<close>, \<open>"/"\<close>, \<open>"/open"\<close> and \<open>"/create"\<close>, whatever the
  search string, the validators and the navigation handle, \<open>parsePath\<close> returns a
  start-mode locator and calls \<open>replace\<close> never. The action is the matched segment
  \<open>"open"\<close> or \<open>"create"\<close>; for \<open>"/"\<close> it is the empty string and for the empty
  pathname it is undefined.
\<close>

theorem parsePath_start:
  "parsePath isAddress isValidEnsName history (js '''') search =
      (StartLocator search None, history) \<and>
   parsePath isAddress isValidEnsName history (js ''/'') search =
      (StartLocator (js ''/'' @ search) (Some []), history) \<and>
   parsePath isAddress isValidEnsName history (js ''/open'') search =
      (StartLocator (js ''/open'' @ search) (Some (js ''open'')), history) \<and>
   parsePath isAddress isValidEnsName history (js ''/create'') search =
      (StartLocator (js ''/create'' @ search) (Some (js ''create'')), history)"
  by (simp add: parsePath_def split_def js_def)

text \<open>
  C7. When the first segment of the pathname is the literal \<open>setup\<close>, \<open>parsePath\<close>
  returns a setup-mode locator, whatever the validators say of \<open>setup\<close>: its step is the
  second segment, or \<open>null\<close> when there is none, and its parts are the segments after
  that. The test for \<open>setup\<close> stands before the organization branch, so the result is
  never an organization locator.
\<close>

theorem parsePath_setup:
  assumes "tl (split pathname (js ''/'')) = js ''setup'' # rest"
  shows "parsePath isAddress isValidEnsName history pathname search =
           (SetupLocator (pathname @ search)
              (case rest of [] \<Rightarrow> None | step # _ \<Rightarrow> Some step) (tl rest), history) \<and>
         mode (fst (parsePath isAddress isValidEnsName history pathname search)) = APP_MODE_SETUP"
  using assms by (cases rest) (simp_all add: parsePath_def js_def at_def)

theorem parsePath_setup_witness:
  "tl (split (js ''/setup/2/foo'') (js ''/'')) = [js ''setup'', js ''2'', js ''foo''] \<and>
   parsePath exampleIsAddress exampleIsValidEnsName [] (js ''/setup/2/foo'') [] =
     (SetupLocator (js ''/setup/2/foo'') (Some (js ''2'')) [js ''foo''], [])"
proof -
  have h: "tl (split (js ''/setup/2/foo'') (js ''/'')) = js ''setup'' # [js ''2'', js ''foo'']"
    by (simp add: split_def js_def)
  show ?thesis
    using h parsePath_setup [OF h, of exampleIsAddress exampleIsValidEnsName "[]" "[]"]
    by simp
qed

section \<open>The preferences\<close>

text \<open>
  C6. The claim is that \<open>parsePreferences("")\<close> has \<open>path = null\<close>. The code returns the
  empty string there: splitting the empty \<open>raw\<close> gives the one-element array \<open>[""]\<close>, so
  the default \<open>null\<close> of \<open>path\<close> is never taken. The params are empty, as claimed. More
  generally, the path is \<open>null\<close> for no search string at all.
\<close>

theorem parsePreferences_empty_path:
  "parsePreferences [] = \<lparr>pref_path = Some [], pref_params = Map.empty\<rparr> \<and>
   (\<forall>search. pref_path (parsePreferences search) \<noteq> None)"
  by (simp add: parsePreferences_def Let_def at_def split_def labels_nonempty split_from_not_Nil)

text \<open>
  C9. \<open>parsePreferences("?preferences=/admin&labels=xyz")\<close> has the path \<open>admin\<close> and
  the params with the single key \<open>&labels=\<close>, mapped to \<open>xyz\<close>. The params are empty
  when the search string has no \<open>&labels=\<close> marker, and when its only marker stands at
  the very end, with nothing after it.
\<close>

theorem parsePreferences_labels:
  "parsePreferences (js ''?preferences=/admin&labels=xyz'') =
     \<lparr>pref_path = Some (js ''admin''), pref_params = [js ''&labels='' \<mapsto> js ''xyz'']\<rparr> \<and>
   (\<not> sublist GLOBAL_PREFERENCES_SHARE_LINK_QUERY_VAR search \<or>
    (\<exists>pre. search = pre @ GLOBAL_PREFERENCES_SHARE_LINK_QUERY_VAR \<and>
       \<not> sublist GLOBAL_PREFERENCES_SHARE_LINK_QUERY_VAR
            (pre @ butlast GLOBAL_PREFERENCES_SHARE_LINK_QUERY_VAR))
    \<longrightarrow> pref_params (parsePreferences search) = Map.empty)"
proof (intro conjI impI)
  show "parsePreferences (js ''?preferences=/admin&labels=xyz'') =
     \<lparr>pref_path = Some (js ''admin''), pref_params = [js ''&labels='' \<mapsto> js ''xyz'']\<rparr>"
    by (simp add: parsePreferences_def split_def js_def at_def
        GLOBAL_PREFERENCES_QUERY_PARAM_def GLOBAL_PREFERENCES_SHARE_LINK_QUERY_VAR_def)
next
  assume "\<not> sublist GLOBAL_PREFERENCES_SHARE_LINK_QUERY_VAR search \<or>
    (\<exists>pre. search = pre @ GLOBAL_PREFERENCES_SHARE_LINK_QUERY_VAR \<and>
       \<not> sublist GLOBAL_PREFERENCES_SHARE_LINK_QUERY_VAR
            (pre @ butlast GLOBAL_PREFERENCES_SHARE_LINK_QUERY_VAR))"
  then show "pref_params (parsePreferences search) = Map.empty"
    by (rule no_labels_params_empty)
qed

theorem parsePreferences_labels_witness:
  "pref_params (parsePreferences (js ''?preferences=/admin'')) = Map.empty \<and>
   pref_params (parsePreferences (js ''?preferences=/admin&labels='')) = Map.empty"
proof -
  have a: "\<not> sublist GLOBAL_PREFERENCES_SHARE_LINK_QUERY_VAR (js ''?preferences=/admin'')"
    by (simp add: GLOBAL_PREFERENCES_SHARE_LINK_QUERY_VAR_def js_def sublist_code)
  have b: "js ''?preferences=/admin&labels='' =
             js ''?preferences=/admin'' @ GLOBAL_PREFERENCES_SHARE_LINK_QUERY_VAR \<and>
           \<not> sublist GLOBAL_PREFERENCES_SHARE_LINK_QUERY_VAR
               (js ''?preferences=/admin'' @ butlast GLOBAL_PREFERENCES_SHARE_LINK_QUERY_VAR)"
    by (simp add: GLOBAL_PREFERENCES_SHARE_LINK_QUERY_VAR_def js_def sublist_code)
  show ?thesis
    using a b parsePreferences_labels [of "js ''?preferences=/admin''"]
      parsePreferences_labels [of "js ''?preferences=/admin&labels=''"]
    by blast
qed

section \<open>The organization mode\<close>

text \<open>
  C10. Whenever \<open>parsePath\<close> returns an organization locator, its \<open>instanceId\<close> is not
  the empty string: it is the second segment of the pathname when there is one and it
  is not empty, and the sentinel \<open>home\<close> otherwise.
\<close>

theorem parsePath_instanceId_nonempty:
  assumes "mode (fst (parsePath isAddress isValidEnsName history pathname search)) = APP_MODE_ORG"
  shows "loc_instanceId (fst (parsePath isAddress isValidEnsName history pathname search)) \<noteq> [] \<and>
     loc_instanceId (fst (parsePath isAddress isValidEnsName history pathname search)) =
       (case tl (split pathname (js ''/'')) of
          _ # i # _ \<Rightarrow> if i = [] then js ''home'' else i
        | _ \<Rightarrow> js ''home'')"
  using assms
  by (auto simp: parsePath_def Let_def at_def js_def split: list.splits if_splits)

theorem parsePath_instanceId_nonempty_witness:
  "mode (fst (parsePath exampleIsAddress exampleIsValidEnsName [] (js ''/mydao//x'') [])) = APP_MODE_ORG \<and>
   tl (split (js ''/mydao//x'') (js ''/'')) = [js ''mydao'', [], js ''x''] \<and>
   loc_instanceId (fst (parsePath exampleIsAddress exampleIsValidEnsName [] (js ''/mydao//x'') []))
     = js ''home''"
proof -
  have h: "mode (fst (parsePath exampleIsAddress exampleIsValidEnsName [] (js ''/mydao//x'') []))
             = APP_MODE_ORG"
    by (simp add: parsePath_def split_def js_def Let_def)
  have s: "tl (split (js ''/mydao//x'') (js ''/'')) = [js ''mydao'', [], js ''x'']"
    by (simp add: split_def js_def)
  show ?thesis
    using h s parsePath_instanceId_nonempty [OF h] by simp
qed

text \<open>
  C5, as amended. When the first segment of the pathname is not empty, is none of the
  literals \<open>open\<close>, \<open>create\<close> and \<open>setup\<close>, and is neither a valid address nor a valid
  name-service name, \<open>parsePath\<close> returns an organization locator whose \<open>dao\<close> is the
  segment with \<open>.aragonid.eth\<close> appended, whose \<open>instanceId\<close> is \<open>home\<close> when there is
  no second segment, and it calls \<open>replace\<close> never.
\<close>

theorem parsePath_bare_label:
  assumes "tl (split pathname (js ''/'')) = part0 # rest"
    and "part0 \<noteq> []" "part0 \<noteq> js ''open''" "part0 \<noteq> js ''create''" "part0 \<noteq> js ''setup''"
    and "\<not> isAddress part0" "\<not> isValidEnsName part0"
  shows "mode (fst (parsePath isAddress isValidEnsName history pathname search)) = APP_MODE_ORG \<and>
     loc_dao (fst (parsePath isAddress isValidEnsName history pathname search))
       = part0 @ js ''.aragonid.eth'' \<and>
     (rest = [] \<longrightarrow>
        loc_instanceId (fst (parsePath isAddress isValidEnsName history pathname search))
          = js ''home'') \<and>
     snd (parsePath isAddress isValidEnsName history pathname search) = history"
  using assms
  by (simp add: parsePath_def Let_def at_def ARAGONID_ENS_DOMAIN_def js_def)

theorem parsePath_bare_label_witness:
  "tl (split (js ''/mydao'') (js ''/'')) = [js ''mydao''] \<and>
   \<not> exampleIsAddress (js ''mydao'') \<and> \<not> exampleIsValidEnsName (js ''mydao'') \<and>
   mode (fst (parsePath exampleIsAddress exampleIsValidEnsName [] (js ''/mydao'') [])) = APP_MODE_ORG \<and>
   loc_dao (fst (parsePath exampleIsAddress exampleIsValidEnsName [] (js ''/mydao'') []))
     = js ''mydao.aragonid.eth'' \<and>
   loc_instanceId (fst (parsePath exampleIsAddress exampleIsValidEnsName [] (js ''/mydao'') []))
     = js ''home''"
proof -
  have s: "tl (split (js ''/mydao'') (js ''/'')) = js ''mydao'' # []"
    by (simp add: split_def js_def)
  have n: "js ''mydao'' \<noteq> []" "js ''mydao'' \<noteq> js ''open''" "js ''mydao'' \<noteq> js ''create''"
    "js ''mydao'' \<noteq> js ''setup''"
    by (simp_all add: js_def)
  have a: "\<not> exampleIsAddress (js ''mydao'')"
    by (simp add: exampleIsAddress_def js_def)
  have e: "\<not> exampleIsValidEnsName (js ''mydao'')"
    by (simp add: exampleIsValidEnsName_def split_def js_def)
  show ?thesis
    using s a e
      parsePath_bare_label [where isAddress = exampleIsAddress
        and isValidEnsName = exampleIsValidEnsName and history = "[]" and search = "[]",
        OF s n a e]
    by (simp add: js_def)
qed

text \<open>
  The claim without the amendment fails at the pathname \<open>/setup\<close>: its first segment is
  neither a valid address nor a valid name, and the locator is a setup-mode one.
\<close>

theorem parsePath_reserved_segment:
  "tl (split (js ''/setup'') (js ''/'')) = [js ''setup''] \<and>
   \<not> exampleIsAddress (js ''setup'') \<and> \<not> exampleIsValidEnsName (js ''setup'') \<and>
   parsePath exampleIsAddress exampleIsValidEnsName [] (js ''/setup'') [] =
     (SetupLocator (js ''/setup'') None [], []) \<and>
   mode (fst (parsePath exampleIsAddress exampleIsValidEnsName [] (js ''/setup'') [])) \<noteq> APP_MODE_ORG"
  by (simp add: parsePath_def split_def js_def at_def exampleIsAddress_def
      exampleIsValidEnsName_def)

text \<open>
  C3, as amended. For a pathname that \<open>parsePath\<close> classifies as organization mode: the
  params of the locator are \<open>null\<close> when the search string has no marker \<open>?p=\<close>. When
  the search string is \<open>pre ?p= raw rest\<close>, where the marker does not occur before and
  \<open>rest\<close> is empty or begins with the next occurrence of the marker, the params are the
  percent-decoded \<open>raw\<close>, and \<open>null\<close> when \<open>raw\<close> is empty or cannot be decoded. So
  what is decoded is the text between the first marker and the next one, not all that
  follows the first.
\<close>

theorem parsePath_params_between_markers:
  assumes "mode (fst (parsePath isAddress isValidEnsName history pathname [])) = APP_MODE_ORG"
  shows "mode (fst (parsePath isAddress isValidEnsName history pathname search)) = APP_MODE_ORG \<and>
    (\<not> sublist (js ''?p='') search \<longrightarrow>
       loc_params (fst (parsePath isAddress isValidEnsName history pathname search)) = None) \<and>
    (\<forall>pre raw rest.
       search = pre @ js ''?p='' @ raw @ rest \<and>
       \<not> sublist (js ''?p='') (pre @ butlast (js ''?p='')) \<and>
       ((rest = [] \<and> \<not> sublist (js ''?p='') raw) \<or>
        (prefix (js ''?p='') rest \<and> \<not> sublist (js ''?p='') (raw @ butlast (js ''?p='')))) \<longrightarrow>
       loc_params (fst (parsePath isAddress isValidEnsName history pathname search)) =
         (if raw = [] then None
          else (case decodeURIComponent raw of Inl err \<Rightarrow> None | Inr v \<Rightarrow> Some v)))"
proof -
  obtain part0 rest0 where p: "tl (split pathname (js ''/'')) = part0 # rest0" "part0 \<noteq> []"
      "part0 \<noteq> js ''open''" "part0 \<noteq> js ''create''" "part0 \<noteq> js ''setup''"
    using assms unfolding parsePath_org_mode by blast
  note org = parsePath_org [OF p, of isAddress isValidEnsName history search]
  have 1: "mode (fst (parsePath isAddress isValidEnsName history pathname search)) = APP_MODE_ORG"
    by (simp add: org)
  have 2: "loc_params (fst (parsePath isAddress isValidEnsName history pathname search)) = None"
    if "\<not> sublist (js ''?p='') search"
    using rawParams_absent [OF that] by (auto simp: org)
  have 3: "loc_params (fst (parsePath isAddress isValidEnsName history pathname search)) =
         (if raw = [] then None
          else (case decodeURIComponent raw of Inl err \<Rightarrow> None | Inr v \<Rightarrow> Some v))"
    if "search = pre @ js ''?p='' @ raw @ rest"
       "\<not> sublist (js ''?p='') (pre @ butlast (js ''?p=''))"
       "(rest = [] \<and> \<not> sublist (js ''?p='') raw) \<or>
        (prefix (js ''?p='') rest \<and> \<not> sublist (js ''?p='') (raw @ butlast (js ''?p='')))"
    for pre raw rest
    using rawParams_between [OF that] by (simp add: org)
  show ?thesis using 1 2 3 by blast
qed

theorem parsePath_params_between_markers_witness:
  "mode (fst (parsePath exampleIsAddress exampleIsValidEnsName [] (js ''/mydao/voting'') [])) = APP_MODE_ORG \<and>
   js ''?p=%7Ba%7D'' = [] @ js ''?p='' @ js ''%7Ba%7D'' @ [] \<and>
   \<not> sublist (js ''?p='') ([] @ butlast (js ''?p='')) \<and>
   \<not> sublist (js ''?p='') (js ''%7Ba%7D'') \<and>
   decodeURIComponent (js ''%7Ba%7D'') = Inr (js ''{a}'') \<and>
   loc_params (fst (parsePath exampleIsAddress exampleIsValidEnsName [] (js ''/mydao/voting'')
      (js ''?p=%7Ba%7D''))) = Some (js ''{a}'') \<and>
   js ''?p=%7Ba%7D?p=b'' = [] @ js ''?p='' @ js ''%7Ba%7D'' @ js ''?p=b'' \<and>
   prefix (js ''?p='') (js ''?p=b'') \<and>
   \<not> sublist (js ''?p='') (js ''%7Ba%7D'' @ butlast (js ''?p='')) \<and>
   loc_params (fst (parsePath exampleIsAddress exampleIsValidEnsName [] (js ''/mydao/voting'')
      (js ''?p=%7Ba%7D?p=b''))) = Some (js ''{a}'') \<and>
   \<not> sublist (js ''?p='') (js ''?preferences=/network'') \<and>
   loc_params (fst (parsePath exampleIsAddress exampleIsValidEnsName [] (js ''/mydao/voting'')
      (js ''?preferences=/network''))) = None"
proof -
  have org: "mode (fst (parsePath exampleIsAddress exampleIsValidEnsName [] (js ''/mydao/voting'') []))
      = APP_MODE_ORG"
    by (simp add: parsePath_def split_def js_def Let_def)
  have dec: "js ''?p=%7Ba%7D'' = [] @ js ''?p='' @ js ''%7Ba%7D'' @ []"
    "js ''?p=%7Ba%7D?p=b'' = [] @ js ''?p='' @ js ''%7Ba%7D'' @ js ''?p=b''"
    by (simp_all add: js_def)
  have first: "\<not> sublist (js ''?p='') ([] @ butlast (js ''?p=''))"
    by (simp add: js_def sublist_code)
  have nxt: "\<not> sublist (js ''?p='') (js ''%7Ba%7D'')"
    "prefix (js ''?p='') (js ''?p=b'')"
    "\<not> sublist (js ''?p='') (js ''%7Ba%7D'' @ butlast (js ''?p=''))"
    by (simp_all add: js_def sublist_code)
  have absent: "\<not> sublist (js ''?p='') (js ''?preferences=/network'')"
    by (simp add: js_def sublist_code)
  have d: "decodeURIComponent (js ''%7Ba%7D'') = Inr (js ''{a}'')"
    by (simp add: decodeURIComponent_def js_def hexValue_def leadingOnes_def)
  have ne: "js ''%7Ba%7D'' \<noteq> []" by (simp add: js_def)
  note thm1 = parsePath_params_between_markers [OF org, of "js ''?p=%7Ba%7D''"]
  note thm2 = parsePath_params_between_markers [OF org, of "js ''?p=%7Ba%7D?p=b''"]
  note thm3 = parsePath_params_between_markers [OF org, of "js ''?preferences=/network''"]
  have 1: "loc_params (fst (parsePath exampleIsAddress exampleIsValidEnsName [] (js ''/mydao/voting'')
      (js ''?p=%7Ba%7D''))) = (if js ''%7Ba%7D'' = [] then None
          else (case decodeURIComponent (js ''%7Ba%7D'') of Inl err \<Rightarrow> None | Inr v \<Rightarrow> Some v))"
    using thm1 dec(1) first nxt(1) by blast
  have 2: "loc_params (fst (parsePath exampleIsAddress exampleIsValidEnsName [] (js ''/mydao/voting'')
      (js ''?p=%7Ba%7D?p=b''))) = (if js ''%7Ba%7D'' = [] then None
          else (case decodeURIComponent (js ''%7Ba%7D'') of Inl err \<Rightarrow> None | Inr v \<Rightarrow> Some v))"
    using thm2 dec(2) first nxt(2,3) by blast
  have 3: "loc_params (fst (parsePath exampleIsAddress exampleIsValidEnsName [] (js ''/mydao/voting'')
      (js ''?preferences=/network''))) = None"
    using thm3 absent by blast
  show ?thesis using org dec first nxt absent d ne 1 2 3 by simp
qed

text \<open>
  The claim as it stands fails at the search string \<open>?p=a?p=b\<close>: all that follows the
  first marker is \<open>a?p=b\<close>, which decodes to itself, and the params are \<open>a\<close>.
\<close>

theorem parsePath_params_second_marker:
  "js ''?p=a?p=b'' = js ''?p='' @ js ''a?p=b'' \<and>
   decodeURIComponent (js ''a?p=b'') = Inr (js ''a?p=b'') \<and>
   loc_params (fst (parsePath exampleIsAddress exampleIsValidEnsName [] (js ''/mydao'')
      (js ''?p=a?p=b''))) = Some (js ''a'') \<and>
   js ''a'' \<noteq> js ''a?p=b''"
  by (simp add: parsePath_def split_def js_def at_def decodeURIComponent_def
      exampleIsAddress_def exampleIsValidEnsName_def)

text \<open>
  C4, as amended. For a pathname that \<open>parsePath\<close> classifies as organization mode and
  a search string \<open>pre ?p= raw rest\<close> as above, when \<open>raw\<close> is not empty and
  \<open>decodeURIComponent\<close> raises \<open>URIError\<close> on it: \<open>parsePath\<close> returns an organization
  locator (it raises nothing) whose params are \<open>null\<close>, whose path is the pathname
  followed by the search string and whose preferences are those of the search string;
  its dao, instanceId and parts are those of the same pathname parsed with the empty
  search string.
\<close>

theorem parsePath_params_decode_failure:
  assumes "mode (fst (parsePath isAddress isValidEnsName history pathname [])) = APP_MODE_ORG"
    and "search = pre @ js ''?p='' @ raw @ rest"
    and "\<not> sublist (js ''?p='') (pre @ butlast (js ''?p=''))"
    and "(rest = [] \<and> \<not> sublist (js ''?p='') raw) \<or>
         (prefix (js ''?p='') rest \<and> \<not> sublist (js ''?p='') (raw @ butlast (js ''?p='')))"
    and "raw \<noteq> []"
    and "decodeURIComponent raw = Inl URIError"
  shows "\<exists>dao instanceId parts.
           fst (parsePath isAddress isValidEnsName history pathname search) =
             OrgLocator (pathname @ search) dao instanceId None parts (parsePreferences search) \<and>
           fst (parsePath isAddress isValidEnsName history pathname []) =
             OrgLocator pathname dao instanceId None parts (parsePreferences [])"
proof -
  obtain part0 rest0 where p: "tl (split pathname (js ''/'')) = part0 # rest0" "part0 \<noteq> []"
      "part0 \<noteq> js ''open''" "part0 \<noteq> js ''create''" "part0 \<noteq> js ''setup''"
    using assms(1) unfolding parsePath_org_mode by blast
  show ?thesis
    using rawParams_between [OF assms(2,3,4)] assms(5,6)
    by (simp add: parsePath_org [OF p])
qed

theorem parsePath_params_decode_failure_witness:
  "decodeURIComponent (js ''%zz'') = Inl URIError \<and>
   fst (parsePath exampleIsAddress exampleIsValidEnsName [] (js ''/mydao/voting'') (js ''?p=%zz'')) =
     OrgLocator (js ''/mydao/voting?p=%zz'') (js ''mydao.aragonid.eth'') (js ''voting'') None []
       (parsePreferences (js ''?p=%zz'')) \<and>
   fst (parsePath exampleIsAddress exampleIsValidEnsName [] (js ''/mydao/voting'') (js ''?p=%zz?p=ok'')) =
     OrgLocator (js ''/mydao/voting?p=%zz?p=ok'') (js ''mydao.aragonid.eth'') (js ''voting'') None []
       (parsePreferences (js ''?p=%zz?p=ok''))"
proof -
  have org: "mode (fst (parsePath exampleIsAddress exampleIsValidEnsName [] (js ''/mydao/voting'') []))
      = APP_MODE_ORG"
    by (simp add: parsePath_def split_def js_def Let_def)
  have dec: "js ''?p=%zz'' = [] @ js ''?p='' @ js ''%zz'' @ []"
    "js ''?p=%zz?p=ok'' = [] @ js ''?p='' @ js ''%zz'' @ js ''?p=ok''"
    by (simp_all add: js_def)
  have first: "\<not> sublist (js ''?p='') ([] @ butlast (js ''?p=''))"
    by (simp add: js_def sublist_code)
  have nxt: "([] = [] \<and> \<not> sublist (js ''?p='') (js ''%zz'')) \<or>
     (prefix (js ''?p='') [] \<and> \<not> sublist (js ''?p='') (js ''%zz'' @ butlast (js ''?p='')))"
    "(js ''?p=ok'' = [] \<and> \<not> sublist (js ''?p='') (js ''%zz'')) \<or>
     (prefix (js ''?p='') (js ''?p=ok'') \<and>
      \<not> sublist (js ''?p='') (js ''%zz'' @ butlast (js ''?p='')))"
    by (simp_all add: js_def sublist_code)
  have ne: "js ''%zz'' \<noteq> []" by (simp add: js_def)
  have d: "decodeURIComponent (js ''%zz'') = Inl URIError"
    by (simp add: decodeURIComponent_def js_def hexValue_def)
  have base: "fst (parsePath exampleIsAddress exampleIsValidEnsName [] (js ''/mydao/voting'') []) =
     OrgLocator (js ''/mydao/voting'') (js ''mydao.aragonid.eth'') (js ''voting'') None []
       (parsePreferences [])"
    by (simp add: parsePath_def split_def js_def at_def ARAGONID_ENS_DOMAIN_def
        exampleIsAddress_def exampleIsValidEnsName_def)
  obtain dao instanceId parts where 1:
    "fst (parsePath exampleIsAddress exampleIsValidEnsName [] (js ''/mydao/voting'') (js ''?p=%zz'')) =
       OrgLocator (js ''/mydao/voting'' @ js ''?p=%zz'') dao instanceId None parts
         (parsePreferences (js ''?p=%zz''))"
    "fst (parsePath exampleIsAddress exampleIsValidEnsName [] (js ''/mydao/voting'') []) =
       OrgLocator (js ''/mydao/voting'') dao instanceId None parts (parsePreferences [])"
    using parsePath_params_decode_failure [OF org dec(1) first nxt(1) ne d] by blast
  obtain dao' instanceId' parts' where 2:
    "fst (parsePath exampleIsAddress exampleIsValidEnsName [] (js ''/mydao/voting'') (js ''?p=%zz?p=ok'')) =
       OrgLocator (js ''/mydao/voting'' @ js ''?p=%zz?p=ok'') dao' instanceId' None parts'
         (parsePreferences (js ''?p=%zz?p=ok''))"
    "fst (parsePath exampleIsAddress exampleIsValidEnsName [] (js ''/mydao/voting'') []) =
       OrgLocator (js ''/mydao/voting'') dao' instanceId' None parts' (parsePreferences [])"
    using parsePath_params_decode_failure [OF org dec(2) first nxt(2) ne d] by blast
  show ?thesis using 1 2 base d by (simp add: js_def)
qed

text \<open>
  The claim as it stands fails at the search string \<open>?p=ok?p=%zz\<close>: the invalid escape
  \<open>%zz\<close> stands after the marker, all that follows the first marker cannot be decoded,
  and yet the params are \<open>ok\<close>, not \<open>null\<close>.
\<close>

theorem parsePath_params_failure_after_second_marker:
  "decodeURIComponent (js ''%zz'') = Inl URIError \<and>
   decodeURIComponent (js ''ok?p=%zz'') = Inl URIError \<and>
   loc_params (fst (parsePath exampleIsAddress exampleIsValidEnsName [] (js ''/mydao'')
      (js ''?p=ok?p=%zz''))) = Some (js ''ok'')"
  by (simp add: parsePath_def split_def js_def at_def decodeURIComponent_def hexValue_def
      exampleIsAddress_def exampleIsValidEnsName_def)

text \<open>
  C2. The segment \<open>a.aragonid.ethx.aragonid.eth\<close> is a valid name that ends with
  \<open>aragonid.eth\<close>. The claim asks for a replacement request with the suffix removed,
  the pathname \<open>/a.aragonid.ethx\<close>. The code removes the first occurrence of
  \<open>.aragonid.eth\<close> in the pathname instead and requests \<open>/ax.aragonid.eth\<close>, the
  address of another organization. The request is made once, with the same search
  string and the flag, and the dao of the locator is the unshortened segment, as
  claimed. Where \<open>.aragonid.eth\<close> occurs in the pathname only as the suffix of the
  first segment, the code does what the claim says: \<open>parsePath_redirect_suffix\<close> above.
\<close>

theorem parsePath_redirect_first_occurrence:
  "tl (split (js ''/a.aragonid.ethx.aragonid.eth'') (js ''/'')) = [js ''a.aragonid.ethx.aragonid.eth''] \<and>
   exampleIsValidEnsName (js ''a.aragonid.ethx.aragonid.eth'') \<and>
   endsWith (js ''a.aragonid.ethx.aragonid.eth'') ARAGONID_ENS_DOMAIN \<and>
   js ''a.aragonid.ethx.aragonid.eth'' = js ''a.aragonid.ethx'' @ js ''.aragonid.eth'' \<and>
   parsePath exampleIsAddress exampleIsValidEnsName [] (js ''/a.aragonid.ethx.aragonid.eth'') [] =
     (OrgLocator (js ''/a.aragonid.ethx.aragonid.eth'') (js ''a.aragonid.ethx.aragonid.eth'')
        (js ''home'') None [] \<lparr>pref_path = Some [], pref_params = Map.empty\<rparr>,
      [\<lparr>nav_pathname = js ''/ax.aragonid.eth'', nav_search = [],
        nav_state = \<lparr>alreadyParsed = True\<rparr>\<rparr>])"
  by (simp add: parsePath_def parsePreferences_def split_def js_def at_def replace_def
      ARAGONID_ENS_DOMAIN_def GLOBAL_PREFERENCES_SHARE_LINK_QUERY_VAR_def endsWith_def
      exampleIsAddress_def exampleIsValidEnsName_def isWordChar_def suffix_to_prefix)

section \<open>From a locator to a path and back\<close>

text \<open>
  C1, as amended. Let the dao of a locator be a valid address that does not contain
  \<open>aragonid.eth\<close>, or a label followed by \<open>.aragonid.eth\<close>, where the label is neither a
  valid address nor a valid name and does not contain \<open>aragonid.eth\<close>. Call \<open>short\<close>
  what the path shows of it: the address, or the label. Let \<open>short\<close> be non-empty, none
  of \<open>open\<close>, \<open>create\<close> and \<open>setup\<close>, and free of \<open>/\<close> and \<open>?\<close>; let the instanceId be
  non-empty, free of \<open>/\<close> and \<open>?\<close>, and no key of the registry; let the params be \<open>null\<close>
  or a non-empty string without an unpaired surrogate. Then \<open>getAppPath\<close> returns a
  path. When the params are \<open>null\<close>, \<open>parsePath\<close> of this path, with no search string,
  returns an organization locator with the same dao, instanceId and params. In every
  case \<open>parsePath\<close> does so when it is given the path split at its first \<open>?\<close> into
  pathname and search string.
\<close>

theorem getAppPath_parsePath_roundtrip:
  assumes dao: "(isAddress dao \<and> \<not> sublist ARAGONID_ENS_DOMAIN dao \<and> short = dao) \<or>
           (dao = short @ js ''.aragonid.eth'' \<and> \<not> isAddress short \<and> \<not> isValidEnsName short \<and>
            \<not> sublist ARAGONID_ENS_DOMAIN short)"
    and short: "short \<noteq> []" "short \<noteq> js ''open''" "short \<noteq> js ''create''" "short \<noteq> js ''setup''"
      "of_char CHR ''/'' \<notin> set short" "of_char CHR ''?'' \<notin> set short"
    and inst: "staticApps instanceId = None" "instanceId \<noteq> []"
      "of_char CHR ''/'' \<notin> set instanceId" "of_char CHR ''?'' \<notin> set instanceId"
    and params: "params = None \<or> (\<exists>p. params = Some p \<and> p \<noteq> [] \<and> isWellFormed p)"
  shows "\<exists>path. getAppPath staticApps (Some dao) (Some instanceId) params = Inr path \<and>
     (params = None \<longrightarrow>
        mode (fst (parsePath isAddress isValidEnsName history path [])) = APP_MODE_ORG \<and>
        loc_dao (fst (parsePath isAddress isValidEnsName history path [])) = dao \<and>
        loc_instanceId (fst (parsePath isAddress isValidEnsName history path [])) = instanceId \<and>
        loc_params (fst (parsePath isAddress isValidEnsName history path [])) = None) \<and>
     (\<forall>pathname search.
        path = pathname @ search \<and> of_char CHR ''?'' \<notin> set pathname \<and>
        (search = [] \<or> hd search = of_char CHR ''?'') \<longrightarrow>
        mode (fst (parsePath isAddress isValidEnsName history pathname search)) = APP_MODE_ORG \<and>
        loc_dao (fst (parsePath isAddress isValidEnsName history pathname search)) = dao \<and>
        loc_instanceId (fst (parsePath isAddress isValidEnsName history pathname search)) = instanceId \<and>
        loc_params (fst (parsePath isAddress isValidEnsName history pathname search)) = params)"
proof -
  let ?P = "js ''/'' @ short @ js ''/'' @ instanceId"
  have short': "0x2F \<notin> set short" "0x3F \<notin> set short"
    using short(5,6) by simp_all
  have inst': "0x2F \<notin> set instanceId" "0x3F \<notin> set instanceId"
    using inst(3,4) by simp_all
  have sd: "(if indexOf dao ARAGONID_ENS_DOMAIN > - 1
          then substr dao 0 (indexOf dao ARAGONID_ENS_DOMAIN - 1) else dao) = short"
    using dao getAppPath_dao_unchanged [of dao] getAppPath_dao_stripped [of short] by auto
  obtain part where part:
    "getAppPath staticApps (Some dao) (Some instanceId) params = Inr (?P @ part)"
    "part = [] \<or> hd part = 0x3F"
    "(if part = [] then Some [] else at (split part (js ''?p='')) 1) =
       (case params of None \<Rightarrow> Some [] | Some p \<Rightarrow> Some (the (Encode p)))"
    "params = None \<or> (\<exists>p e. params = Some p \<and> Encode p = Some e \<and> e \<noteq> [])"
    "params = None \<longrightarrow> part = []"
    using params
  proof
    assume n: "params = None"
    have "getAppPath staticApps (Some dao) (Some instanceId) params = Inr (?P @ [])"
      using n inst(1) sd by (simp add: getAppPath_def Let_def)
    then show ?thesis using that [of "[]"] n by simp
  next
    assume "\<exists>p. params = Some p \<and> p \<noteq> [] \<and> isWellFormed p"
    then obtain p where p: "params = Some p" "p \<noteq> []" "isWellFormed p" by blast
    then obtain e where e: "Encode p = Some e" using Encode_wellFormed [of p] by auto
    have ne: "e \<noteq> []" using Encode_not_Nil [OF e p(2)] .
    have "0x3F \<notin> set e" using Encode_no_question [OF e] .
    then have "\<not> sublist (js ''?p='') e"
      using set_mono_sublist [of "js ''?p=''" e] by (auto simp: js_def)
    then have raw: "(if js ''?p='' @ e = [] then Some [] else at (split (js ''?p='' @ e) (js ''?p='')) 1)
        = Some e"
      using rawParams_between [of "js ''?p='' @ e" "[]" e "[]"]
      by (simp add: js_def sublist_code)
    have "getAppPath staticApps (Some dao) (Some instanceId) params = Inr (?P @ (js ''?p='' @ e))"
      using p e inst(1) sd
      by (simp add: getAppPath_def Let_def encodeURIComponent_def)
    moreover have "hd (js ''?p='' @ e) = 0x3F" by (simp add: js_def)
    ultimately show ?thesis using that [of "js ''?p='' @ e"] raw p e ne by simp
  qed
  have seg: "tl (split ?P (js ''/'')) = short # [instanceId]"
    using segments_two [OF short'(1) inst'(1)] by simp
  have noq: "0x3F \<notin> set ?P" using short'(2) inst'(2) by (simp add: js_def)
  have main: "mode (fst (parsePath isAddress isValidEnsName history ?P part)) = APP_MODE_ORG \<and>
        loc_dao (fst (parsePath isAddress isValidEnsName history ?P part)) = dao \<and>
        loc_instanceId (fst (parsePath isAddress isValidEnsName history ?P part)) = instanceId \<and>
        loc_params (fst (parsePath isAddress isValidEnsName history ?P part)) = params"
  proof -
    have d: "(if \<not> isAddress short \<and> \<not> isValidEnsName short
              then short @ js ''.'' @ ARAGONID_ENS_DOMAIN else short) = dao"
      using dao by (auto simp: ARAGONID_ENS_DOMAIN_def js_def)
    have pr: "(case (if part = [] then Some [] else at (split part (js ''?p='')) 1) of
           None \<Rightarrow> None
         | Some r \<Rightarrow> if r = [] then None
                     else (case decodeURIComponent r of Inl err \<Rightarrow> None | Inr v \<Rightarrow> Some v)) = params"
      using part(4)
    proof
      assume "params = None"
      then show ?thesis using part(3) by simp
    next
      assume "\<exists>p e. params = Some p \<and> Encode p = Some e \<and> e \<noteq> []"
      then obtain p e where pe: "params = Some p" "Encode p = Some e" "e \<noteq> []" by blast
      then show ?thesis
        using part(3) Decode_Encode [OF pe(2)] by (simp add: decodeURIComponent_def)
    qed
    show ?thesis
      using d pr inst(2)
      by (simp add: parsePath_org [OF seg short(1,2,3,4)])
  qed
  have uniq: "\<forall>pathname search.
        ?P @ part = pathname @ search \<and> 0x3F \<notin> set pathname \<and> (search = [] \<or> hd search = 0x3F) \<longrightarrow>
        pathname = ?P \<and> search = part"
    using split_at_question_unique [OF _ _ noq _ part(2)] by metis
  have whole: "params = None \<longrightarrow> ?P @ part = ?P \<and> part = []"
    using part(5) by simp
  have "(params = None \<longrightarrow>
        mode (fst (parsePath isAddress isValidEnsName history (?P @ part) [])) = APP_MODE_ORG \<and>
        loc_dao (fst (parsePath isAddress isValidEnsName history (?P @ part) [])) = dao \<and>
        loc_instanceId (fst (parsePath isAddress isValidEnsName history (?P @ part) [])) = instanceId \<and>
        loc_params (fst (parsePath isAddress isValidEnsName history (?P @ part) [])) = None)"
    using main part(5) by auto
  moreover have "\<forall>pathname search.
        ?P @ part = pathname @ search \<and> of_char CHR ''?'' \<notin> set pathname \<and>
        (search = [] \<or> hd search = of_char CHR ''?'') \<longrightarrow>
        mode (fst (parsePath isAddress isValidEnsName history pathname search)) = APP_MODE_ORG \<and>
        loc_dao (fst (parsePath isAddress isValidEnsName history pathname search)) = dao \<and>
        loc_instanceId (fst (parsePath isAddress isValidEnsName history pathname search)) = instanceId \<and>
        loc_params (fst (parsePath isAddress isValidEnsName history pathname search)) = params"
  proof (intro allI impI)
    fix pathname search
    assume a: "?P @ part = pathname @ search \<and> of_char CHR ''?'' \<notin> set pathname \<and>
        (search = [] \<or> hd search = of_char CHR ''?'')"
    then have "?P @ part = pathname @ search" "0x3F \<notin> set pathname"
        "search = [] \<or> hd search = 0x3F"
      by simp_all
    then have "pathname = ?P \<and> search = part" using uniq by blast
    then show "mode (fst (parsePath isAddress isValidEnsName history pathname search)) = APP_MODE_ORG \<and>
        loc_dao (fst (parsePath isAddress isValidEnsName history pathname search)) = dao \<and>
        loc_instanceId (fst (parsePath isAddress isValidEnsName history pathname search)) = instanceId \<and>
        loc_params (fst (parsePath isAddress isValidEnsName history pathname search)) = params"
      using main by simp
  qed
  ultimately show ?thesis using part(1) by blast
qed

theorem getAppPath_parsePath_roundtrip_witness:
  "getAppPath [js ''home'' \<mapsto> js ''/''] (Some (js ''mydao.aragonid.eth'')) (Some (js ''voting''))
     (Some (js ''{a}'')) = Inr (js ''/mydao/voting?p=%7Ba%7D'') \<and>
   mode (fst (parsePath exampleIsAddress exampleIsValidEnsName [] (js ''/mydao/voting'')
     (js ''?p=%7Ba%7D''))) = APP_MODE_ORG \<and>
   loc_dao (fst (parsePath exampleIsAddress exampleIsValidEnsName [] (js ''/mydao/voting'')
     (js ''?p=%7Ba%7D''))) = js ''mydao.aragonid.eth'' \<and>
   loc_instanceId (fst (parsePath exampleIsAddress exampleIsValidEnsName [] (js ''/mydao/voting'')
     (js ''?p=%7Ba%7D''))) = js ''voting'' \<and>
   loc_params (fst (parsePath exampleIsAddress exampleIsValidEnsName [] (js ''/mydao/voting'')
     (js ''?p=%7Ba%7D''))) = Some (js ''{a}'') \<and>
   exampleIsAddress (js ''0xcafe1a77e84698c83ca8931f54a755176ef75f2c'') \<and>
   getAppPath [js ''home'' \<mapsto> js ''/''] (Some (js ''0xcafe1a77e84698c83ca8931f54a755176ef75f2c''))
     (Some (js ''voting'')) None = Inr (js ''/0xcafe1a77e84698c83ca8931f54a755176ef75f2c/voting'') \<and>
   loc_dao (fst (parsePath exampleIsAddress exampleIsValidEnsName []
     (js ''/0xcafe1a77e84698c83ca8931f54a755176ef75f2c/voting'') []))
     = js ''0xcafe1a77e84698c83ca8931f54a755176ef75f2c'' \<and>
   loc_instanceId (fst (parsePath exampleIsAddress exampleIsValidEnsName []
     (js ''/0xcafe1a77e84698c83ca8931f54a755176ef75f2c/voting'') [])) = js ''voting'' \<and>
   loc_params (fst (parsePath exampleIsAddress exampleIsValidEnsName []
     (js ''/0xcafe1a77e84698c83ca8931f54a755176ef75f2c/voting'') [])) = None"
proof -
  let ?apps = "[js ''home'' \<mapsto> js ''/'']"
  let ?addr = "js ''0xcafe1a77e84698c83ca8931f54a755176ef75f2c''"
  have dao: "(exampleIsAddress (js ''mydao.aragonid.eth'') \<and>
        \<not> sublist ARAGONID_ENS_DOMAIN (js ''mydao.aragonid.eth'') \<and>
        js ''mydao'' = js ''mydao.aragonid.eth'') \<or>
     (js ''mydao.aragonid.eth'' = js ''mydao'' @ js ''.aragonid.eth'' \<and>
        \<not> exampleIsAddress (js ''mydao'') \<and> \<not> exampleIsValidEnsName (js ''mydao'') \<and>
        \<not> sublist ARAGONID_ENS_DOMAIN (js ''mydao''))"
    by (simp add: js_def exampleIsAddress_def exampleIsValidEnsName_def split_def
        ARAGONID_ENS_DOMAIN_def sublist_code)
  have short: "js ''mydao'' \<noteq> []" "js ''mydao'' \<noteq> js ''open''" "js ''mydao'' \<noteq> js ''create''"
    "js ''mydao'' \<noteq> js ''setup''" "of_char CHR ''/'' \<notin> set (js ''mydao'')"
    "of_char CHR ''?'' \<notin> set (js ''mydao'')"
    by (simp_all add: js_def)
  have inst: "?apps (js ''voting'') = None" "js ''voting'' \<noteq> []"
    "of_char CHR ''/'' \<notin> set (js ''voting'')" "of_char CHR ''?'' \<notin> set (js ''voting'')"
    by (simp_all add: js_def)
  have params: "Some (js ''{a}'') = None \<or>
      (\<exists>p. Some (js ''{a}'') = Some p \<and> p \<noteq> [] \<and> isWellFormed p)"
    by (simp add: js_def isLeadSurrogate_def isTrailSurrogate_def)
  have path: "getAppPath ?apps (Some (js ''mydao.aragonid.eth'')) (Some (js ''voting''))
     (Some (js ''{a}'')) = Inr (js ''/mydao/voting?p=%7Ba%7D'')"
    by (simp add: getAppPath_def js_def ARAGONID_ENS_DOMAIN_def substr_def encodeURIComponent_def
        uriUnescaped_def isLeadSurrogate_def isTrailSurrogate_def utf8Encode_def percentEncode_def
        hexDigit_def)
  have cut: "js ''/mydao/voting?p=%7Ba%7D'' = js ''/mydao/voting'' @ js ''?p=%7Ba%7D'' \<and>
     of_char CHR ''?'' \<notin> set (js ''/mydao/voting'') \<and>
     (js ''?p=%7Ba%7D'' = [] \<or> hd (js ''?p=%7Ba%7D'') = of_char CHR ''?'')"
    by (simp add: js_def)
  have label: "mode (fst (parsePath exampleIsAddress exampleIsValidEnsName [] (js ''/mydao/voting'')
       (js ''?p=%7Ba%7D''))) = APP_MODE_ORG \<and>
     loc_dao (fst (parsePath exampleIsAddress exampleIsValidEnsName [] (js ''/mydao/voting'')
       (js ''?p=%7Ba%7D''))) = js ''mydao.aragonid.eth'' \<and>
     loc_instanceId (fst (parsePath exampleIsAddress exampleIsValidEnsName [] (js ''/mydao/voting'')
       (js ''?p=%7Ba%7D''))) = js ''voting'' \<and>
     loc_params (fst (parsePath exampleIsAddress exampleIsValidEnsName [] (js ''/mydao/voting'')
       (js ''?p=%7Ba%7D''))) = Some (js ''{a}'')"
    using getAppPath_parsePath_roundtrip [where isAddress = exampleIsAddress
        and isValidEnsName = exampleIsValidEnsName and staticApps = ?apps and history = "[]",
        OF dao short inst params] path cut
    by (metis sum.inject(2))
  have isa: "exampleIsAddress ?addr"
    by (simp add: exampleIsAddress_def js_def hexValue_def)
  have dao2: "(exampleIsAddress ?addr \<and> \<not> sublist ARAGONID_ENS_DOMAIN ?addr \<and> ?addr = ?addr) \<or>
     (?addr = ?addr @ js ''.aragonid.eth'' \<and>
        \<not> exampleIsAddress ?addr \<and> \<not> exampleIsValidEnsName ?addr \<and>
        \<not> sublist ARAGONID_ENS_DOMAIN ?addr)"
    using isa by (simp add: js_def ARAGONID_ENS_DOMAIN_def sublist_code)
  have short2: "?addr \<noteq> []" "?addr \<noteq> js ''open''" "?addr \<noteq> js ''create''"
    "?addr \<noteq> js ''setup''" "of_char CHR ''/'' \<notin> set ?addr" "of_char CHR ''?'' \<notin> set ?addr"
    by (simp_all add: js_def)
  have params2: "(None :: jsstring option) = None \<or>
      (\<exists>p. (None :: jsstring option) = Some p \<and> p \<noteq> [] \<and> isWellFormed p)"
    by simp
  have path2: "getAppPath ?apps (Some ?addr) (Some (js ''voting'')) None =
      Inr (js ''/0xcafe1a77e84698c83ca8931f54a755176ef75f2c/voting'')"
    by (simp add: getAppPath_def js_def ARAGONID_ENS_DOMAIN_def)
  have address: "loc_dao (fst (parsePath exampleIsAddress exampleIsValidEnsName []
       (js ''/0xcafe1a77e84698c83ca8931f54a755176ef75f2c/voting'') [])) = ?addr \<and>
     loc_instanceId (fst (parsePath exampleIsAddress exampleIsValidEnsName []
       (js ''/0xcafe1a77e84698c83ca8931f54a755176ef75f2c/voting'') [])) = js ''voting'' \<and>
     loc_params (fst (parsePath exampleIsAddress exampleIsValidEnsName []
       (js ''/0xcafe1a77e84698c83ca8931f54a755176ef75f2c/voting'') [])) = None"
    using getAppPath_parsePath_roundtrip [where isAddress = exampleIsAddress
        and isValidEnsName = exampleIsValidEnsName and staticApps = ?apps and history = "[]",
        OF dao2 short2 inst params2] path2
    by (metis sum.inject(2))
  show ?thesis using path label isa path2 address by simp
qed

text \<open>
  The claim as it stands fails for the params \<open>""\<close>: the empty string is falsy, the path
  has no \<open>?p=\<close> part, and the params that come back are \<open>null\<close>.
\<close>

theorem getAppPath_parsePath_empty_params:
  "\<not> exampleIsAddress (js ''mydao'') \<and> \<not> exampleIsValidEnsName (js ''mydao'') \<and>
   [js ''home'' \<mapsto> js ''/''] (js ''voting'') = None \<and>
   getAppPath [js ''home'' \<mapsto> js ''/''] (Some (js ''mydao.aragonid.eth'')) (Some (js ''voting''))
     (Some []) = Inr (js ''/mydao/voting'') \<and>
   fst (parsePath exampleIsAddress exampleIsValidEnsName [] (js ''/mydao/voting'') []) =
     OrgLocator (js ''/mydao/voting'') (js ''mydao.aragonid.eth'') (js ''voting'') None []
       \<lparr>pref_path = Some [], pref_params = Map.empty\<rparr>"
  by (simp add: getAppPath_def parsePath_def parsePreferences_def split_def js_def at_def
      ARAGONID_ENS_DOMAIN_def GLOBAL_PREFERENCES_SHARE_LINK_QUERY_VAR_def substr_def
      exampleIsAddress_def exampleIsValidEnsName_def)

text \<open>
  The path handed to \<open>parsePath\<close> as its pathname, unsplit and with no search string,
  comes back with the params \<open>null\<close> and the \<open>?p=\<close> part in the instanceId.
\<close>

lemma getAppPath_parsePath_unsplit:
  "getAppPath [js ''home'' \<mapsto> js ''/''] (Some (js ''mydao.aragonid.eth'')) (Some (js ''voting''))
     (Some (js ''x'')) = Inr (js ''/mydao/voting?p=x'') \<and>
   fst (parsePath exampleIsAddress exampleIsValidEnsName [] (js ''/mydao/voting?p=x'') []) =
     OrgLocator (js ''/mydao/voting?p=x'') (js ''mydao.aragonid.eth'') (js ''voting?p=x'') None []
       \<lparr>pref_path = Some [], pref_params = Map.empty\<rparr>"
  by (simp add: getAppPath_def parsePath_def parsePreferences_def split_def js_def at_def
      ARAGONID_ENS_DOMAIN_def GLOBAL_PREFERENCES_SHARE_LINK_QUERY_VAR_def substr_def
      exampleIsAddress_def exampleIsValidEnsName_def encodeURIComponent_def uriUnescaped_def)

end
